theory Spec2Isabelle
  imports Complex_Main "HOL-Library.AList" "HOL-Library.Log_Nat"
begin

section \<open>The identity map of \<open>SelfMapVisualization.tsx\<close>\<close>

text \<open>
  The component draws a scatter chart with d3 inside the element that its React ref points
  to. The embedding follows the body of its \<open>useEffect\<close> callback and of the two pointer
  handlers statement by statement, over a tree model of the page.

  JavaScript numbers are IEEE-754 binary64 numbers. A finite number is modelled by the real
  number that it denotes, and an arithmetic operation of the code by the exact operation
  followed by the rounding of binary64 (subsection Numbers). \<open>NaN\<close> and the infinities are
  outside the model. A d3 transition is represented by the value it ends at, set when the
  synchronous part of the handler is over. Of d3 itself, the
  operations that the component calls are modelled by what they do to the tree:
  \<open>select\<close>, \<open>selectAll\<close>, \<open>append\<close>, \<open>attr\<close>, \<open>style\<close>, \<open>text\<close>, \<open>html\<close>, \<open>on\<close>, \<open>remove\<close>,
  the data join (\<open>data\<close>, \<open>enter\<close>, \<open>join\<close>), the linear and the ordinal scale.
\<close>

subsection \<open>Input data\<close>

text \<open>\<open>interface IdentityData\<close>: a strength and three optional texts.\<close>

record IdentityData =
  Strength :: real
  Title :: "string option"
  Beliefs :: "string option"
  Style :: "string option"

text \<open>
  The prop \<open>data: Record<string, IdentityData>\<close> is read only through \<open>Object.entries\<close>,
  so the mapping is represented by its entry list, in iteration order.
\<close>

type_synonym data = "(string \<times> IdentityData) list"

text \<open>
  An element of \<open>processedData\<close>. The objects are compared by reference in the handler
  (\<open>item !== d\<close>); \<open>oid\<close> is the identity of the object, its index in the array that
  \<open>map\<close> creates.
\<close>

record entry =
  oid :: nat
  name :: string
  strength :: real
  details :: IdentityData

definition processedData :: "data \<Rightarrow> entry list" where
  "processedData d =
     map (\<lambda>(i, (key, v)). \<lparr>oid = i, name = key, strength = Strength v, details = v\<rparr>)
       (enumerate 0 d)"

subsection \<open>Numbers\<close>

text \<open>
  The rounding of binary64: to the nearest number with a significand of 53 bits, and to
  the one with the even significand when two are equally near. \<open>rne\<close> rounds a real to the
  nearest integer, ties to even; \<open>expo x\<close> is the exponent of the binade of \<open>x\<close>, that is
  \<open>2 powi expo x \<le> \<bar>x\<bar> < 2 powi (expo x + 1)\<close>; \<open>binary64 x\<close> rounds the significand of
  \<open>x\<close>, scaled to lie between \<open>2 ^ 52\<close> and \<open>2 ^ 53\<close>.

  The exponent is not bounded: the model has neither the overflow to an infinity (beyond
  about \<open>1.8 * 10 ^ 308\<close>) nor the gradual underflow (below about \<open>2.2 * 10 ^ -308\<close>) of
  binary64. The operations of the component reach neither for a strength of magnitude
  below \<open>10 ^ 300\<close>: a sum with 10 is zero or at least \<open>2 ^ -49\<close> in magnitude, and the
  factors are at most 680. Beyond that magnitude the code has an infinity where the model
  has a large number of the same sign.
\<close>

definition rne :: "real \<Rightarrow> int" where
  "rne x =
     (let n = \<lfloor>x\<rfloor>; r = x - of_int n
      in if r < 1 / 2 then n else if 1 / 2 < r then n + 1
         else if even n then n else n + 1)"

definition expo :: "real \<Rightarrow> int" where
  "expo x =
     (if 1 \<le> \<bar>x\<bar> then bitlen \<lfloor>\<bar>x\<bar>\<rfloor> - 1 else - bitlen (\<lceil>1 / \<bar>x\<bar>\<rceil> - 1))"

definition binary64 :: "real \<Rightarrow> real" where
  "binary64 x =
     (if x = 0 then 0
      else let u = 2 powi (expo x - 52) in of_int (rne (x / u)) * u)"

text \<open>
  The operators \<open>+\<close>, \<open>-\<close>, \<open>*\<close> and \<open>/\<close> of the code on two numbers. A decimal literal \<open>c\<close> of
  the code that is not itself a binary64 number, such as \<open>1.4\<close>, denotes \<open>binary64 c\<close>.

  Where the result of an operation of the code is exact in binary64, the model writes the
  operation of the reals: the arithmetic on the dimensions and on the legend offsets
  (integers far below \<open>2 ^ 53\<close>), and the two operations with the operand 2, \<open>value / 2\<close>
  and \<open>calculateSize(d.strength) * 2\<close>, which only change the exponent.
\<close>

definition plus64 :: "real \<Rightarrow> real \<Rightarrow> real" where
  "plus64 x y = binary64 (x + y)"

definition minus64 :: "real \<Rightarrow> real \<Rightarrow> real" where
  "minus64 x y = binary64 (x - y)"

definition times64 :: "real \<Rightarrow> real \<Rightarrow> real" where
  "times64 x y = binary64 (x * y)"

definition divide64 :: "real \<Rightarrow> real \<Rightarrow> real" where
  "divide64 x y = binary64 (x / y)"

subsection \<open>Dimensions and scales\<close>

definition margin_top :: real where "margin_top = 60"
definition margin_right :: real where "margin_right = 160"
definition margin_bottom :: real where "margin_bottom = 60"
definition margin_left :: real where "margin_left = 60"

definition width :: real where
  "width = 900 - margin_left - margin_right"

definition height :: real where
  "height = 700 - margin_top - margin_bottom"

text \<open>
  \<open>d3.scaleLinear().domain([d0, d1]).range([r0, r1])\<close>: the value is normalised over the
  domain and interpolated over the range, without clamping. d3 builds the scale from

  \<^item> \<open>normalize(a, b)\<close>: with \<open>b -= a\<close>, the function \<open>x => (x - a) / b\<close>, or the constant
    0.5 when \<open>b\<close> is 0;
  \<^item> \<open>interpolateNumber(a, b)\<close>: the function \<open>t => a * (1 - t) + b * t\<close>;
  \<^item> \<open>bimap\<close>, which swaps the ends of the domain and of the range when the domain
    descends.
\<close>

record scaleLinear =
  domain0 :: real
  domain1 :: real
  range0 :: real
  range1 :: real

definition normalize_d3 :: "real \<Rightarrow> real \<Rightarrow> real \<Rightarrow> real" where
  "normalize_d3 a b x =
     (let b' = minus64 b a
      in if b' \<noteq> 0 then divide64 (minus64 x a) b' else 1 / 2)"

definition interpolateNumber :: "real \<Rightarrow> real \<Rightarrow> real \<Rightarrow> real" where
  "interpolateNumber a b t = plus64 (times64 a (minus64 1 t)) (times64 b t)"

definition apply_scale :: "scaleLinear \<Rightarrow> real \<Rightarrow> real" where
  "apply_scale sc x =
     (if domain1 sc < domain0 sc
      then interpolateNumber (range1 sc) (range0 sc) (normalize_d3 (domain1 sc) (domain0 sc) x)
      else interpolateNumber (range0 sc) (range1 sc) (normalize_d3 (domain0 sc) (domain1 sc) x))"

definition xScale :: scaleLinear where
  "xScale = \<lparr>domain0 = - 10, domain1 = 10, range0 = 0, range1 = width\<rparr>"

definition yScale :: scaleLinear where
  "yScale = \<lparr>domain0 = - 10, domain1 = 10, range0 = height, range1 = 0\<rparr>"

subsection \<open>Position and size helpers\<close>

definition calculatePosition :: "real \<Rightarrow> scaleLinear \<Rightarrow> real" where
  "calculatePosition v sc =
     (if v = 10 then apply_scale sc 0
      else if v \<ge> 5 then apply_scale sc (v / 2)
      else apply_scale sc v)"

definition calculateSize :: "real \<Rightarrow> real" where
  "calculateSize v =
     (let baseSize = 7
      in if v = 10 then times64 baseSize (binary64 1.8)
         else if v \<ge> 5 then times64 baseSize (binary64 1.4)
         else baseSize)"

subsection \<open>The categorical colour scale\<close>

text \<open>The palette \<open>d3.schemeSet3\<close>.\<close>

definition schemeSet3 :: "string list" where
  "schemeSet3 =
     [''#8dd3c7'', ''#ffffb3'', ''#bebada'', ''#fb8072'', ''#80b1d3'', ''#fdb462'',
      ''#b3de69'', ''#fccde5'', ''#d9d9d9'', ''#bc80bd'', ''#ccebc5'', ''#ffed6f'']"

fun index_of :: "'a \<Rightarrow> 'a list \<Rightarrow> nat option" where
  "index_of x [] = None"
| "index_of x (y # ys) =
     (if x = y then Some 0 else map_option Suc (index_of x ys))"

text \<open>
  \<open>d3.scaleOrdinal().range(d3.schemeSet3)\<close> has an implicit domain: a value that is not
  yet in the domain is pushed onto it, and the colour is the range element at the value's
  domain index modulo the length of the range. The domain is the state of the scale; a call
  returns the colour and the domain after the call.
\<close>

definition colorScale :: "string list \<Rightarrow> string \<Rightarrow> string \<times> string list" where
  "colorScale dm d =
     (case index_of d dm of
        Some i \<Rightarrow> (schemeSet3 ! (i mod length schemeSet3), dm)
      | None \<Rightarrow> (schemeSet3 ! (length dm mod length schemeSet3), dm @ [d]))"

subsection \<open>Elements and trees\<close>

text \<open>
  A template literal is kept as its fragments, so that no number has to be printed.
\<close>

datatype frag = Lit string | Val real

datatype jsval = Num real | Str string | Tpl "frag list"

datatype orient = Bottom | Left

text \<open>
  What a d3 axis generator was configured with when it was called on a group. The marks
  that the library draws inside the group (a domain path and ticks, of classes \<open>domain\<close>
  and \<open>tick\<close>) and the text attributes it sets on the group are not expanded; no selector
  of the component matches them.
\<close>

record axis_call =
  orientation :: orient
  axis_scale :: scaleLinear
  tickSize :: real
  tickPadding :: real
  blank_labels :: bool

text \<open>
  An element: its tag, its attributes and inline styles in the order in which they were
  first set, the datum that a data join bound to it (\<open>__data__\<close>), the text or markup set
  through \<open>text\<close> or \<open>html\<close> (markup is kept as text; the elements it would parse to stay
  inside the element that holds it), whether the two pointer listeners of the component are
  registered on it, and the axis drawn into it.
\<close>

record elem =
  tag :: string
  attrs :: "(string \<times> jsval) list"
  styles :: "(string \<times> jsval) list"
  datum :: "entry option"
  content :: "jsval option"
  listens :: bool
  axis :: "axis_call option"

text \<open>
  \<open>Container\<close> is the place of the element that \<open>chartRef\<close> refers to,
  \<open><div ref={chartRef} className="w-full" style={{ minHeight: '700px' }}/>\<close>, in the
  tree of the page; its children are kept in the state.
\<close>

datatype node = Node elem "node list" | Container

type_synonym path = "nat list"

definition element :: "string \<Rightarrow> (string \<times> jsval) list \<Rightarrow> (string \<times> jsval) list \<Rightarrow> elem" where
  "element t as ss =
     \<lparr>tag = t, attrs = as, styles = ss, datum = None, content = None,
      listens = False, axis = None\<rparr>"

fun node_tag :: "node \<Rightarrow> string" where
  "node_tag (Node e ks) = tag e"
| "node_tag Container = ''div''"

fun node_datum :: "node \<Rightarrow> entry option" where
  "node_datum (Node e ks) = datum e"
| "node_datum Container = None"

fun node_kids :: "node \<Rightarrow> node list" where
  "node_kids (Node e ks) = ks"
| "node_kids Container = []"

fun node_attr :: "string \<Rightarrow> node \<Rightarrow> jsval option" where
  "node_attr k (Node e ks) = map_of (attrs e) k"
| "node_attr k Container = (if k = ''class'' then Some (Str ''w-full'') else None)"

fun node_style :: "string \<Rightarrow> node \<Rightarrow> jsval option" where
  "node_style k (Node e ks) = map_of (styles e) k"
| "node_style k Container = (if k = ''min-height'' then Some (Str ''700px'') else None)"

fun set_attr :: "string \<Rightarrow> jsval \<Rightarrow> node \<Rightarrow> node" where
  "set_attr k v (Node e ks) = Node (e\<lparr>attrs := AList.update k v (attrs e)\<rparr>) ks"
| "set_attr k v Container = Container"

fun set_style :: "string \<Rightarrow> jsval \<Rightarrow> node \<Rightarrow> node" where
  "set_style k v (Node e ks) = Node (e\<lparr>styles := AList.update k v (styles e)\<rparr>) ks"
| "set_style k v Container = Container"

fun set_datum :: "entry \<Rightarrow> node \<Rightarrow> node" where
  "set_datum d (Node e ks) = Node (e\<lparr>datum := Some d\<rparr>) ks"
| "set_datum d Container = Container"

fun set_content :: "jsval \<Rightarrow> node \<Rightarrow> node" where
  "set_content v (Node e ks) = Node (e\<lparr>content := Some v\<rparr>) ks"
| "set_content v Container = Container"

text \<open>The class list of an element: the tokens of its class attribute.\<close>

definition is_space :: "char \<Rightarrow> bool" where
  "is_space c = (c = CHR '' '' \<or> c = CHR 0x09 \<or> c = CHR 0x0A \<or> c = CHR 0x0C \<or> c = CHR 0x0D)"

fun tokens :: "string \<Rightarrow> string \<Rightarrow> string list" where
  "tokens w [] = (if w = [] then [] else [w])"
| "tokens w (c # cs) =
     (if is_space c then (if w = [] then tokens [] cs else w # tokens [] cs)
      else tokens (w @ [c]) cs)"

definition has_class :: "string \<Rightarrow> node \<Rightarrow> bool" where
  "has_class c n =
     (case node_attr ''class'' n of
        Some (Str s) \<Rightarrow> c \<in> set (tokens [] s)
      | _ \<Rightarrow> False)"

definition has_tag :: "string \<Rightarrow> node \<Rightarrow> bool" where
  "has_tag t n = (node_tag n = t)"

subsection \<open>References into a tree\<close>

text \<open>
  A reference to an element is its path: the child indices from the root of the tree it
  lives in. The empty path is the root itself (the container, or the document).
\<close>

fun kids_at :: "path \<Rightarrow> node list \<Rightarrow> node list" where
  "kids_at [] ks = ks"
| "kids_at (i # p) ks =
     (if i < length ks then kids_at p (node_kids (ks ! i)) else [])"

definition node_at :: "path \<Rightarrow> node list \<Rightarrow> node option" where
  "node_at p ks =
     (if p = [] then None
      else (let cs = kids_at (butlast p) ks
            in if last p < length cs then Some (cs ! last p) else None))"

fun kids_map :: "path \<Rightarrow> (node list \<Rightarrow> node list) \<Rightarrow> node list \<Rightarrow> node list" where
  "kids_map [] f ks = f ks"
| "kids_map (i # p) f ks =
     (if i < length ks
      then (case ks ! i of
              Node e cs \<Rightarrow> ks[i := Node e (kids_map p f cs)]
            | Container \<Rightarrow> ks)
      else ks)"

definition modify_at :: "path \<Rightarrow> (node \<Rightarrow> node) \<Rightarrow> node list \<Rightarrow> node list" where
  "modify_at p f ks =
     (if p = [] then ks
      else kids_map (butlast p)
             (\<lambda>cs. if last p < length cs then cs[last p := f (cs ! last p)] else cs) ks)"

definition remove_at :: "path \<Rightarrow> node list \<Rightarrow> node list" where
  "remove_at p ks =
     (if p = [] then ks
      else kids_map (butlast p) (\<lambda>cs. take (last p) cs @ drop (Suc (last p)) cs) ks)"

text \<open>\<open>parent.append(...)\<close> on one element: the new last child and the reference to it.\<close>

definition append_at :: "path \<Rightarrow> node \<Rightarrow> node list \<Rightarrow> node list \<times> path" where
  "append_at p n ks = (kids_map p (\<lambda>cs. cs @ [n]) ks, p @ [length (kids_at p ks)])"

text \<open>The paths of the elements of a forest that satisfy \<open>P\<close>, in document order.\<close>

fun matching :: "(node \<Rightarrow> bool) \<Rightarrow> nat \<Rightarrow> node list \<Rightarrow> path list" where
  "matching P i [] = []"
| "matching P i (Container # ns) =
     (if P Container then [[i]] else []) @ matching P (Suc i) ns"
| "matching P i (Node e ks # ns) =
     (if P (Node e ks) then [[i]] else []) @ map ((#) i) (matching P 0 ks)
       @ matching P (Suc i) ns"

text \<open>\<open>root.selectAll(".cls")\<close>: the descendants of the element with the class.\<close>

definition select_all :: "path \<Rightarrow> string \<Rightarrow> node list \<Rightarrow> path list" where
  "select_all p c ks = map ((@) p) (matching (has_class c) 0 (kids_at p ks))"

text \<open>\<open>d3.select("body")\<close>: the first element of the document with the tag.\<close>

definition select_tag :: "string \<Rightarrow> node list \<Rightarrow> path option" where
  "select_tag t ks =
     (case matching (has_tag t) 0 ks of [] \<Rightarrow> None | p # ps \<Rightarrow> Some p)"

text \<open>
  \<open>selectAll(sel).remove()\<close> below a root: every matching descendant is taken out of its
  parent.
\<close>

fun remove_all :: "(node \<Rightarrow> bool) \<Rightarrow> node list \<Rightarrow> node list" where
  "remove_all P [] = []"
| "remove_all P (Container # ns) =
     (if P Container then [] else [Container]) @ remove_all P ns"
| "remove_all P (Node e ks # ns) =
     (if P (Node e ks) then [] else [Node e (remove_all P ks)]) @ remove_all P ns"

subsection \<open>Selections\<close>

text \<open>
  A selection is the list of the references to its elements. A callback \<open>(d, i) => ...\<close>
  receives the datum bound to the element and the element's index in the selection.

  \<open>sel_modify\<close> is a chain of \<open>attr\<close>, \<open>style\<close>, \<open>text\<close> and \<open>on\<close> calls whose arguments
  have no effect of their own, applied to every element of the selection.
\<close>

definition sel_modify :: "path list \<Rightarrow> (nat \<Rightarrow> node \<Rightarrow> node) \<Rightarrow> node list \<Rightarrow> node list" where
  "sel_modify ps f t = fold (\<lambda>(i, p). modify_at p (f i)) (enumerate 0 ps) t"

text \<open>
  \<open>selection.append(tag)\<close> followed by such a chain: every element of the selection gets
  one new last child, which inherits the datum of its parent. The chains of the component
  read \<open>d.strength\<close> or \<open>d.name\<close>, which needs a bound datum; every selection they are
  applied to comes from a data join, and an element without datum is passed over.
\<close>

definition sel_append :: "path list \<Rightarrow> (entry \<Rightarrow> elem) \<Rightarrow> node list \<Rightarrow> node list \<times> path list" where
  "sel_append ps mk t =
     fold (\<lambda>p (t, qs).
            (case Option.bind (node_at p t) node_datum of
               Some d \<Rightarrow>
                 (let (t', q) = append_at p (Node ((mk d)\<lparr>datum := Some d\<rparr>) []) t
                  in (t', qs @ [q]))
             | None \<Rightarrow> (t, qs)))
       ps (t, [])"

text \<open>
  \<open>.style("fill", d => colorScale(d.name))\<close>: the scale is called once per element, in the
  order of the selection, and its domain grows with the calls.
\<close>

definition sel_fill :: "path list \<Rightarrow> node list \<times> string list \<Rightarrow> node list \<times> string list" where
  "sel_fill ps =
     fold (\<lambda>p (t, dm).
            (case Option.bind (node_at p t) node_datum of
               Some d \<Rightarrow>
                 (let (c, dm') = colorScale dm (name d)
                  in (modify_at p (set_style ''fill'' (Str c)) t, dm'))
             | None \<Rightarrow> (t, dm)))
       ps"

text \<open>
  \<open>parent.selectAll(sel).data(ds).enter().append(tag)\<close> with its chain: the data are joined
  by index to the \<open>k\<close> elements that the selector found, so the entering data are those
  from index \<open>k\<close> on, and each gets a new last child of the parent, bound to it.
\<close>

definition enter_append ::
    "path \<Rightarrow> nat \<Rightarrow> entry list \<Rightarrow> (nat \<Rightarrow> entry \<Rightarrow> elem) \<Rightarrow> node list \<Rightarrow> node list \<times> path list" where
  "enter_append parent k ds mk t =
     fold (\<lambda>(i, d) (t, qs).
            (let (t', q) = append_at parent (Node ((mk i d)\<lparr>datum := Some d\<rparr>) []) t
             in (t', qs @ [q])))
       (enumerate k (drop k ds)) (t, [])"

text \<open>
  \<open>parent.selectAll(sel).data(ds).join(tag)\<close>: existing elements are rebound by index,
  entering data get new elements at the end of the parent, surplus elements are removed
  (from the last one backwards, so that the remaining references stay valid), and the result
  is the selection of the updated and the new elements.
\<close>

definition join :: "path \<Rightarrow> string \<Rightarrow> entry list \<Rightarrow> string \<Rightarrow> node list \<Rightarrow> node list \<times> path list" where
  "join parent c ds tg t =
     (let existing = select_all parent c t;
          update = take (length ds) existing;
          exit = drop (length ds) existing;
          t1 = fold (\<lambda>(p, d). modify_at p (set_datum d)) (zip update ds) t;
          (t2, enter) = enter_append parent (length existing) ds (\<lambda>i d. element tg [] []) t1;
          t3 = fold remove_at (rev exit) t2
      in (t3, update @ enter))"

subsection \<open>State\<close>

text \<open>
  What the handlers of one run of the effect close over: \<open>processedData\<close>, the group of
  the connector lines, and the colour scale (its domain).
\<close>

record closure =
  cl_processedData :: "entry list"
  cl_lineGroup :: path
  cl_colorScale :: "string list"

text \<open>
  \<open>page\<close> is the document: the forest below the document node, with \<open>Container\<close> where the
  chart's container is attached. \<open>chartRef\<close> is \<open>chartRef.current\<close>: \<open>None\<close> for a null
  ref, otherwise the children of the container. \<open>env\<close> is the closure of the handlers
  registered on the dots that the container holds.
\<close>

record state =
  page :: "node list"
  chartRef :: "node list option"
  env :: "closure option"

record pointer_event =
  pageX :: real
  pageY :: real

subsection \<open>The effect\<close>

definition grid_x :: axis_call where
  "grid_x = \<lparr>orientation = Bottom, axis_scale = xScale, tickSize = - height,
            tickPadding = 3, blank_labels = True\<rparr>"

definition grid_y :: axis_call where
  "grid_y = \<lparr>orientation = Left, axis_scale = yScale, tickSize = - width,
            tickPadding = 3, blank_labels = True\<rparr>"

definition xAxis :: axis_call where
  "xAxis = \<lparr>orientation = Bottom, axis_scale = xScale, tickSize = - 5,
           tickPadding = 10, blank_labels = False\<rparr>"

definition yAxis :: axis_call where
  "yAxis = \<lparr>orientation = Left, axis_scale = yScale, tickSize = - 5,
           tickPadding = 10, blank_labels = False\<rparr>"

definition translate :: "real \<Rightarrow> real \<Rightarrow> jsval" where
  "translate x y = Tpl [Lit ''translate('', Val x, Lit '', '', Val y, Lit '')'']"

definition makeGrid :: "path \<Rightarrow> node list \<Rightarrow> node list" where
  "makeGrid svg t =
     (let (t1, g1) = append_at svg
            (Node ((element ''g''
                      [(''class'', Str ''grid''), (''transform'', translate 0 (height / 2))]
                      [(''stroke'', Str ''#e5e7eb''), (''stroke-opacity'', Num 0.5)])
                   \<lparr>axis := Some grid_x\<rparr>) []) t;
          (t2, g2) = append_at svg
            (Node ((element ''g''
                      [(''class'', Str ''grid''), (''transform'', translate (width / 2) 0)]
                      [(''stroke'', Str ''#e5e7eb''), (''stroke-opacity'', Num 0.5)])
                   \<lparr>axis := Some grid_y\<rparr>) []) t1
      in t2)"

definition glow_circle :: "entry \<Rightarrow> elem" where
  "glow_circle d =
     element ''circle''
       [(''class'', Str ''dot-glow''),
        (''r'', Num (calculateSize (strength d) * 2)),
        (''cx'', Num (calculatePosition (strength d) xScale)),
        (''cy'', Num (calculatePosition (strength d) yScale))]
       [(''fill'', Str ''url(#point-gradient)'')]"

definition dot_circle :: "entry \<Rightarrow> elem" where
  "dot_circle d =
     element ''circle''
       [(''class'', Str ''dot''),
        (''r'', Num (calculateSize (strength d))),
        (''cx'', Num (calculatePosition (strength d) xScale)),
        (''cy'', Num (calculatePosition (strength d) yScale))]
       []"

fun set_listens :: "node \<Rightarrow> node" where
  "set_listens (Node e ks) = Node (e\<lparr>listens := True\<rparr>) ks"
| "set_listens Container = Container"

definition dot_rest :: "nat \<Rightarrow> node \<Rightarrow> node" where
  "dot_rest i n =
     set_listens
       (set_style ''cursor'' (Str ''pointer'')
         (set_style ''stroke-width'' (Str ''2px'')
           (set_style ''stroke'' (Str ''white'') n)))"

definition legend_item :: "nat \<Rightarrow> entry \<Rightarrow> elem" where
  "legend_item i d =
     element ''g''
       [(''class'', Str ''legend-item''), (''transform'', translate 0 (real i * 25))] []"

definition legend_rect :: "entry \<Rightarrow> elem" where
  "legend_rect d =
     element ''rect'' [(''width'', Num 18), (''height'', Num 18), (''rx'', Num 4)] []"

definition legend_text :: "entry \<Rightarrow> elem" where
  "legend_text d =
     (element ''text'' [(''x'', Num 24), (''y'', Num 9), (''dy'', Str ''.35em'')]
        [(''fill'', Str ''#666''), (''font-size'', Str ''12px'')])
     \<lparr>content := Some (Str (name d))\<rparr>"

definition title_text :: elem where
  "title_text =
     (element ''text''
        [(''x'', Num (width / 2)), (''y'', Num (- margin_top / 2)),
         (''text-anchor'', Str ''middle'')]
        [(''font-size'', Str ''24px''), (''font-weight'', Str ''bold''),
         (''fill'', Str ''#333'')])
     \<lparr>content := Some (Str ''Personal Identity Map'')\<rparr>"

definition subtitle_text :: elem where
  "subtitle_text =
     (element ''text''
        [(''x'', Num (width / 2)), (''y'', Num (- margin_top / 2 + 25)),
         (''text-anchor'', Str ''middle'')]
        [(''font-size'', Str ''14px''), (''fill'', Str ''#666'')])
     \<lparr>content :=
        Some (Str ''Exploring the dimensions of self-identity and personal values'')\<rparr>"

text \<open>
  The blocks of the effect, as its comments name them. \<open>svg\<close> is the reference that the
  source keeps in its variable \<open>svg\<close>: the group inside the new \<open>svg\<close> element.
\<close>

definition create_svg :: "node list \<Rightarrow> node list \<times> path" where
  "create_svg c0 =
     (let (c1, svg_el) = append_at []
             (Node (element ''svg''
                      [(''width'', Num (width + margin_left + margin_right)),
                       (''height'', Num (height + margin_top + margin_bottom))] []) []) c0;
          (c2, svg) = append_at svg_el
             (Node (element ''g'' [(''transform'', translate margin_left margin_top)] []) []) c1
      in (c2, svg))"

definition add_gradient :: "path \<Rightarrow> node list \<Rightarrow> node list" where
  "add_gradient svg t =
     (let (t1, defs) = append_at svg (Node (element ''defs'' [] []) []) t;
          (t2, gradient) = append_at defs
             (Node (element ''radialGradient'' [(''id'', Str ''point-gradient'')] []) []) t1;
          (t3, stop0) = append_at gradient
             (Node (element ''stop''
                      [(''offset'', Str ''0%''), (''stop-color'', Str ''white''),
                       (''stop-opacity'', Num (binary64 0.3))] []) []) t2;
          (t4, stop1) = append_at gradient
             (Node (element ''stop''
                      [(''offset'', Str ''100%''), (''stop-color'', Str ''white''),
                       (''stop-opacity'', Num 0)] []) []) t3
      in t4)"

definition add_axes :: "path \<Rightarrow> node list \<Rightarrow> node list" where
  "add_axes svg t =
     (let (t1, axis_x) = append_at svg
             (Node ((element ''g''
                       [(''class'', Str ''axis''), (''transform'', translate 0 (height / 2))]
                       [(''color'', Str ''#4b5563'')])
                    \<lparr>axis := Some xAxis\<rparr>) []) t;
          (t2, axis_y) = append_at svg
             (Node ((element ''g''
                       [(''class'', Str ''axis''), (''transform'', translate (width / 2) 0)]
                       [(''color'', Str ''#4b5563'')])
                    \<lparr>axis := Some yAxis\<rparr>) []) t1
      in t2)"

text \<open>The points; the colour scale enters with its domain \<open>dm\<close> and leaves with a new one.\<close>

definition add_points :: "path \<Rightarrow> entry list \<Rightarrow> node list \<times> string list \<Rightarrow> node list \<times> string list" where
  "add_points svg pd = (\<lambda>(t, dm).
     (let (t1, points) = enter_append svg (length (select_all svg ''dot'' t)) pd
             (\<lambda>i d. element ''g'' [(''class'', Str ''point-group'')] []) t;
          (t2, glows) = sel_append points glow_circle t1;
          (t3, dots) = sel_append points dot_circle t2;
          (t4, dm') = sel_fill dots (t3, dm);
          t5 = sel_modify dots dot_rest t4
      in (t5, dm')))"

definition add_legend :: "path \<Rightarrow> entry list \<Rightarrow> node list \<times> string list \<Rightarrow> node list \<times> string list" where
  "add_legend svg pd = (\<lambda>(t, dm).
     (let (t1, legend) = append_at svg
             (Node (element ''g'' [(''transform'', translate (width + 20) 20)] []) []) t;
          (t2, legendItems) =
             enter_append legend (length (select_all legend ''legend-item'' t1)) pd
               legend_item t1;
          (t3, rects) = sel_append legendItems legend_rect t2;
          (t4, dm') = sel_fill rects (t3, dm);
          (t5, texts) = sel_append legendItems legend_text t4
      in (t5, dm')))"

definition add_title :: "path \<Rightarrow> node list \<Rightarrow> node list" where
  "add_title svg t =
     (let (t1, title) = append_at svg (Node title_text []) t;
          (t2, subtitle) = append_at svg (Node subtitle_text []) t1
      in t2)"

text \<open>
  The body of the effect after its guard, on the children of the container: the new
  children, and the closure of the handlers it registers. The colour scale is created with
  an empty domain.
\<close>

definition draw :: "data \<Rightarrow> node list \<Rightarrow> node list \<times> closure" where
  "draw d current =
     (let c0 = remove_all (\<lambda>n. True) current;
          (c1, svg) = create_svg c0;
          c2 = add_gradient svg c1;
          c3 = makeGrid svg c2;
          c4 = add_axes svg c3;
          pd = processedData d;
          (c5, lineGroup) = append_at svg
             (Node (element ''g'' [(''class'', Str ''connections'')] []) []) c4;
          (c6, dm) = add_points svg pd (c5, []);
          (c7, dm') = add_legend svg pd (c6, dm);
          c8 = add_title svg c7
      in (c8, \<lparr>cl_processedData = pd, cl_lineGroup = lineGroup, cl_colorScale = dm'\<rparr>))"

text \<open>
  \<open>useEffect(() => { if (!data || !chartRef.current) return; ... }, [data])\<close>: one run
  of the effect with the current value of the prop.
\<close>

definition useEffect :: "data option \<Rightarrow> state \<Rightarrow> state" where
  "useEffect data s =
     (case data of
        None \<Rightarrow> s
      | Some d \<Rightarrow>
          (case chartRef s of
             None \<Rightarrow> s
           | Some current \<Rightarrow>
               (let (chart, cl) = draw d current
                in s\<lparr>chartRef := Some chart, env := Some cl\<rparr>)))"

subsection \<open>The pointer handlers\<close>

definition tooltip_class :: string where
  "tooltip_class = ''absolute bg-black bg-opacity-90 text-white p-3 rounded-lg pointer-events-none opacity-0 transition-opacity duration-300 text-sm max-w-xs shadow-lg''"

text \<open>
  \<open>${x ? `label${x}suffix` : ''}\<close>: an optional string is truthy when it is present and
  not empty.
\<close>

definition optional_line :: "string \<Rightarrow> string option \<Rightarrow> string \<Rightarrow> string" where
  "optional_line label x suffix =
     (case x of
        None \<Rightarrow> []
      | Some t \<Rightarrow> (if t = [] then [] else label @ t @ suffix))"

definition indent :: "nat \<Rightarrow> string" where
  "indent n = CHR 0x0A # replicate n (CHR '' '')"

definition tooltip_html :: "entry \<Rightarrow> jsval" where
  "tooltip_html d =
     Tpl [Lit (indent 10 @ ''<strong>'' @ name d @ ''</strong><br>'' @ indent 10 @ ''Strength: ''),
          Val (strength d),
          Lit (''/10<br>'' @ indent 10
               @ optional_line ''Role: '' (Title (details d)) ''<br>''
               @ indent 10
               @ optional_line ''Beliefs: '' (Beliefs (details d)) ''<br>''
               @ indent 10
               @ optional_line ''Style: '' (Style (details d)) []
               @ indent 8)]"

definition px :: "real \<Rightarrow> jsval" where
  "px x = Tpl [Val x, Lit ''px'']"

text \<open>
  A transition is represented by the value it ends at: \<open>transition().attr(k, v)\<close> sets
  \<open>k\<close> to \<open>v\<close>. The passing of the 200 ms is outside the model. The transition of the
  tooltip runs when the handler has returned, so its \<open>opacity\<close> is set after \<open>left\<close> and
  \<open>top\<close>.

  \<open>mouseover event this s\<close>: the pointer enters the element \<open>this\<close> of the chart. The
  handler runs when that element carries the listeners.
\<close>

definition connection_line :: "real \<Rightarrow> real \<Rightarrow> string \<Rightarrow> nat \<Rightarrow> node \<Rightarrow> node" where
  "connection_line centerX centerY stroke i n =
     (case node_datum n of
        None \<Rightarrow> n
      | Some item \<Rightarrow>
          set_style ''stroke-opacity'' (Str ''0.2'')
            (set_style ''stroke-width'' (Str ''1px'')
              (set_style ''stroke'' (Str stroke)
                (set_attr ''y2'' (Num (calculatePosition (strength item) yScale))
                  (set_attr ''x2'' (Num (calculatePosition (strength item) xScale))
                    (set_attr ''y1'' (Num centerY)
                      (set_attr ''x1'' (Num centerX)
                        (set_attr ''class'' (Str ''connection-line'') n))))))))"

definition on_mouseover :: "pointer_event \<Rightarrow> path \<Rightarrow> entry \<Rightarrow> closure \<Rightarrow> node list \<Rightarrow> state \<Rightarrow> state" where
  "on_mouseover event this d cl chart s =
     (let (pg1, tooltip) =
            (case select_tag ''body'' (page s) of
               None \<Rightarrow> (page s, None)
             | Some body \<Rightarrow>
                 (let (pg, t) = append_at body
                        (Node (element ''div'' [(''class'', Str tooltip_class)] []) []) (page s)
                  in (pg, Some t)));
          c1 = modify_at this
                 (set_attr ''r'' (Num (times64 (calculateSize (strength d)) (binary64 1.2))))
                 chart;
          centerX = calculatePosition (strength d) xScale;
          centerY = calculatePosition (strength d) yScale;
          (c2, lines) = join (cl_lineGroup cl) ''connection-line''
                          (filter (\<lambda>item. oid item \<noteq> oid d) (cl_processedData cl))
                          ''line'' c1;
          (stroke, dm) = colorScale (cl_colorScale cl) (name d);
          c3 = sel_modify lines (connection_line centerX centerY stroke) c2;
          pg2 = (case tooltip of
                   None \<Rightarrow> pg1
                 | Some t \<Rightarrow>
                     modify_at t
                       (\<lambda>n. set_style ''opacity'' (Num 1)
                              (set_style ''top'' (px (minus64 (pageY event) 10))
                                (set_style ''left'' (px (plus64 (pageX event) 10))
                                  (set_content (tooltip_html d) n))))
                       pg1)
      in s\<lparr>page := pg2, chartRef := Some c3, env := Some (cl\<lparr>cl_colorScale := dm\<rparr>)\<rparr>)"

definition mouseover :: "pointer_event \<Rightarrow> path \<Rightarrow> state \<Rightarrow> state" where
  "mouseover event this s =
     (case (chartRef s, env s) of
        (Some chart, Some cl) \<Rightarrow>
          (case node_at this chart of
             Some (Node e ks) \<Rightarrow>
               (case (listens e, datum e) of
                  (True, Some d) \<Rightarrow> on_mouseover event this d cl chart s
                | _ \<Rightarrow> s)
           | _ \<Rightarrow> s)
      | _ \<Rightarrow> s)"

text \<open>
  Whether the container is part of the document; \<open>d3.selectAll\<close> searches the document.
\<close>

definition attached :: "node list \<Rightarrow> bool" where
  "attached pg = (matching (\<lambda>n. n = Container) 0 pg \<noteq> [])"

definition restore_size :: "node \<Rightarrow> node" where
  "restore_size n =
     (case node_datum n of
        None \<Rightarrow> n
      | Some d \<Rightarrow> set_attr ''r'' (Num (calculateSize (strength d))) n)"

definition on_mouseout :: "path \<Rightarrow> closure \<Rightarrow> node list \<Rightarrow> state \<Rightarrow> state" where
  "on_mouseout this cl chart s =
     (let c1 = modify_at this restore_size chart;
          c2 = kids_map (cl_lineGroup cl) (remove_all (has_class ''connection-line'')) c1;
          c3 = (if attached (page s) then remove_all (has_class ''absolute'') c2 else c2);
          pg = remove_all (has_class ''absolute'') (page s)
      in s\<lparr>page := pg, chartRef := Some c3\<rparr>)"

definition mouseout :: "path \<Rightarrow> state \<Rightarrow> state" where
  "mouseout this s =
     (case (chartRef s, env s) of
        (Some chart, Some cl) \<Rightarrow>
          (case node_at this chart of
             Some (Node e ks) \<Rightarrow> (if listens e then on_mouseout this cl chart s else s)
           | _ \<Rightarrow> s)
      | _ \<Rightarrow> s)"

subsection \<open>Observations\<close>

text \<open>
  What the properties below read off a state: the children of the container, an attribute
  or a style of the element at a reference, and the values of one field of all elements of
  a tree in document order.
\<close>

definition chart_of :: "state \<Rightarrow> node list" where
  "chart_of s = (case chartRef s of None \<Rightarrow> [] | Some t \<Rightarrow> t)"

definition attr_at :: "string \<Rightarrow> path \<Rightarrow> node list \<Rightarrow> jsval option" where
  "attr_at k p t = Option.bind (node_at p t) (node_attr k)"

definition style_at :: "string \<Rightarrow> path \<Rightarrow> node list \<Rightarrow> jsval option" where
  "style_at k p t = Option.bind (node_at p t) (node_style k)"

fun collect :: "(elem \<Rightarrow> 'a option) \<Rightarrow> node list \<Rightarrow> 'a list" where
  "collect f [] = []"
| "collect f (Container # ns) = collect f ns"
| "collect f (Node e ks # ns) =
     (case f e of None \<Rightarrow> [] | Some v \<Rightarrow> [v]) @ collect f ks @ collect f ns"

section \<open>The tree that the effect builds\<close>

text \<open>
  The definitions of this section describe the result of the effect and of the handlers in
  closed form; the lemmas after them prove that the step-by-step definitions above compute
  exactly these trees.
\<close>

subsection \<open>Paths\<close>

text \<open>
  A path is valid in a forest when it leads through elements. The other functions express
  a change at a path through a change of a list of children: \<open>upd_nth\<close> on the list,
  \<open>node_modify\<close> and \<open>node_rel\<close> below one of its elements, \<open>add_kid\<close> for a new last
  child.
\<close>

fun valid :: "path \<Rightarrow> node list \<Rightarrow> bool" where
  "valid [] ks = True"
| "valid (i # p) ks =
     (i < length ks \<and> (case ks ! i of Node e cs \<Rightarrow> valid p cs | Container \<Rightarrow> False))"

definition upd_nth :: "nat \<Rightarrow> ('a \<Rightarrow> 'a) \<Rightarrow> 'a list \<Rightarrow> 'a list" where
  "upd_nth i f cs = (if i < length cs then cs[i := f (cs ! i)] else cs)"

definition node_modify :: "path \<Rightarrow> (node \<Rightarrow> node) \<Rightarrow> node \<Rightarrow> node" where
  "node_modify r f n =
     (if r = [] then f n
      else (case n of Node e cs \<Rightarrow> Node e (modify_at r f cs) | Container \<Rightarrow> Container))"

fun add_kid :: "node \<Rightarrow> node \<Rightarrow> node" where
  "add_kid n (Node e cs) = Node e (cs @ [n])"
| "add_kid n Container = Container"

fun node_rel :: "path \<Rightarrow> node \<Rightarrow> node option" where
  "node_rel [] n = Some n"
| "node_rel (i # r) n = node_at (i # r) (node_kids n)"

definition target_datum :: "path \<Rightarrow> node \<Rightarrow> entry option" where
  "target_datum r n = Option.bind (node_rel r n) node_datum"

definition new_node :: "(nat \<Rightarrow> entry \<Rightarrow> elem) \<Rightarrow> nat \<times> entry \<Rightarrow> node" where
  "new_node mk = (\<lambda>(i, d). Node ((mk i d)\<lparr>datum := Some d\<rparr>) [])"

definition add_child :: "(entry \<Rightarrow> elem) \<Rightarrow> node \<Rightarrow> node" where
  "add_child mk n =
     (case node_datum n of
        Some d \<Rightarrow> add_kid (Node ((mk d)\<lparr>datum := Some d\<rparr>) []) n
      | None \<Rightarrow> n)"

definition shallow :: "(node \<Rightarrow> bool) \<Rightarrow> bool" where
  "shallow P = (\<forall>e ks ks'. P (Node e ks) = P (Node e ks'))"

subsection \<open>Colours\<close>

text \<open>
  The domain of the colour scale after it was called on a list of names, and the colour
  that a domain gives to a name.
\<close>

definition domain_after :: "string list \<Rightarrow> string list \<Rightarrow> string list" where
  "domain_after dm xs = fold (\<lambda>x dm. snd (colorScale dm x)) xs dm"

definition colour :: "string list \<Rightarrow> string \<Rightarrow> string" where
  "colour dm x = fst (colorScale dm x)"

subsection \<open>The drawn chart\<close>

text \<open>
  The children of the container after the effect: one \<open>svg\<close> holding one group, whose
  children are the six fixed elements (gradient definitions, two grids, two axes, the group
  of the connector lines), one point group per entry, the legend and the two titles.
  \<open>chart_tree\<close> leaves the connector lines and the point groups open, for the states
  during a hover.
\<close>

definition svg_elem :: elem where
  "svg_elem = element ''svg'' [(''width'', Num 900), (''height'', Num 700)] []"

definition g_elem :: elem where
  "g_elem = element ''g'' [(''transform'', translate 60 60)] []"

definition furniture :: "node list \<Rightarrow> node list" where
  "furniture lines =
     [Node (element ''defs'' [] [])
        [Node (element ''radialGradient'' [(''id'', Str ''point-gradient'')] [])
           [Node (element ''stop''
                    [(''offset'', Str ''0%''), (''stop-color'', Str ''white''),
                     (''stop-opacity'', Num (binary64 0.3))] []) [],
            Node (element ''stop''
                    [(''offset'', Str ''100%''), (''stop-color'', Str ''white''),
                     (''stop-opacity'', Num 0)] []) []]],
      Node ((element ''g''
               [(''class'', Str ''grid''), (''transform'', translate 0 290)]
               [(''stroke'', Str ''#e5e7eb''), (''stroke-opacity'', Num 0.5)])
            \<lparr>axis := Some grid_x\<rparr>) [],
      Node ((element ''g''
               [(''class'', Str ''grid''), (''transform'', translate 340 0)]
               [(''stroke'', Str ''#e5e7eb''), (''stroke-opacity'', Num 0.5)])
            \<lparr>axis := Some grid_y\<rparr>) [],
      Node ((element ''g''
               [(''class'', Str ''axis''), (''transform'', translate 0 290)]
               [(''color'', Str ''#4b5563'')])
            \<lparr>axis := Some xAxis\<rparr>) [],
      Node ((element ''g''
               [(''class'', Str ''axis''), (''transform'', translate 340 0)]
               [(''color'', Str ''#4b5563'')])
            \<lparr>axis := Some yAxis\<rparr>) [],
      Node (element ''g'' [(''class'', Str ''connections'')] []) lines]"

definition dot_elem :: "string \<Rightarrow> entry \<Rightarrow> elem" where
  "dot_elem c d =
     (dot_circle d)
     \<lparr>styles := [(''fill'', Str c), (''stroke'', Str ''white''), (''stroke-width'', Str ''2px''),
                 (''cursor'', Str ''pointer'')],
      datum := Some d, listens := True\<rparr>"

definition point_group :: "string \<Rightarrow> entry \<Rightarrow> node" where
  "point_group c d =
     Node ((element ''g'' [(''class'', Str ''point-group'')] [])\<lparr>datum := Some d\<rparr>)
       [Node ((glow_circle d)\<lparr>datum := Some d\<rparr>) [],
        dot_rest 0 (set_style ''fill'' (Str c) (Node ((dot_circle d)\<lparr>datum := Some d\<rparr>) []))]"

definition legend_row :: "string \<Rightarrow> nat \<Rightarrow> entry \<Rightarrow> node" where
  "legend_row c i d =
     Node ((legend_item i d)\<lparr>datum := Some d\<rparr>)
       [set_style ''fill'' (Str c) (Node ((legend_rect d)\<lparr>datum := Some d\<rparr>) []),
        Node ((legend_text d)\<lparr>datum := Some d\<rparr>) []]"

definition legend_elem :: elem where
  "legend_elem = element ''g'' [(''transform'', translate 700 20)] []"

definition wrap :: "node list \<Rightarrow> node list" where
  "wrap ks = [Node svg_elem [Node g_elem ks]]"

definition chart_points :: "string list \<Rightarrow> entry list \<Rightarrow> node list" where
  "chart_points D pd = map (\<lambda>d. point_group (colour D (name d)) d) pd"

definition chart_legend :: "string list \<Rightarrow> entry list \<Rightarrow> node list" where
  "chart_legend D pd = map (\<lambda>(i, d). legend_row (colour D (name d)) i d) (enumerate 0 pd)"

definition chart_rest :: "entry list \<Rightarrow> node list" where
  "chart_rest pd =
     [Node legend_elem (chart_legend (domain_after [] (map name pd)) pd),
      Node title_text [], Node subtitle_text []]"

definition chart_tree :: "entry list \<Rightarrow> node list \<Rightarrow> node list \<Rightarrow> node list" where
  "chart_tree pd lines pts =
     wrap (furniture lines @ pts
           @ [Node legend_elem (chart_legend (domain_after [] (map name pd)) pd),
              Node title_text [], Node subtitle_text []])"

definition rendered_chart :: "data \<Rightarrow> node list" where
  "rendered_chart d =
     chart_tree (processedData d) []
       (chart_points (domain_after [] (map name (processedData d))) (processedData d))"

definition svg_path :: path where
  "svg_path = [0, 0]"

definition lg_path :: path where
  "lg_path = svg_path @ [5]"

definition dot_path :: "nat \<Rightarrow> path" where
  "dot_path i = svg_path @ [6 + i, 1]"

definition glow_path :: "nat \<Rightarrow> path" where
  "glow_path i = svg_path @ [6 + i, 0]"

definition rendered_env :: "data \<Rightarrow> closure" where
  "rendered_env d =
     \<lparr>cl_processedData = processedData d, cl_lineGroup = lg_path,
      cl_colorScale = domain_after [] (map name (processedData d))\<rparr>"

subsection \<open>The chart and the page during a hover\<close>

text \<open>
  The tooltip as created and as filled in, the page with the tooltip, the connector lines
  of a hovered entry, its enlarged dot, and the chart while the pointer is over the dot of
  entry \<open>i\<close>.
\<close>

definition tooltip_node :: node where
  "tooltip_node = Node (element ''div'' [(''class'', Str tooltip_class)] []) []"

definition tooltip_fill :: "pointer_event \<Rightarrow> entry \<Rightarrow> node \<Rightarrow> node" where
  "tooltip_fill event d n =
     set_style ''opacity'' (Num 1)
       (set_style ''top'' (px (minus64 (pageY event) 10))
         (set_style ''left'' (px (plus64 (pageX event) 10))
           (set_content (tooltip_html d) n)))"

definition page_hover :: "pointer_event \<Rightarrow> entry \<Rightarrow> node list \<Rightarrow> node list" where
  "page_hover event d pg =
     (case select_tag ''body'' pg of
        None \<Rightarrow> pg
      | Some b \<Rightarrow>
          modify_at (b @ [length (kids_at b pg)]) (tooltip_fill event d)
            (kids_map b (\<lambda>cs. cs @ [tooltip_node]) pg))"

definition line_node :: "real \<Rightarrow> real \<Rightarrow> string \<Rightarrow> entry \<Rightarrow> node" where
  "line_node cx cy stroke item =
     connection_line cx cy stroke 0 (Node ((element ''line'' [] [])\<lparr>datum := Some item\<rparr>) [])"

definition hover_lines :: "entry list \<Rightarrow> entry \<Rightarrow> string \<Rightarrow> node list" where
  "hover_lines pd d stroke =
     map (line_node (calculatePosition (strength d) xScale)
                    (calculatePosition (strength d) yScale) stroke)
       (filter (\<lambda>item. oid item \<noteq> oid d) pd)"

definition hovered :: "entry \<Rightarrow> node \<Rightarrow> node" where
  "hovered d =
     node_modify [1] (set_attr ''r'' (Num (times64 (calculateSize (strength d)) (binary64 1.2))))"

definition hovered_chart :: "data \<Rightarrow> nat \<Rightarrow> node list" where
  "hovered_chart d i =
     (let pd = processedData d; D = domain_after [] (map name pd); pts = chart_points D pd
      in chart_tree pd (hover_lines pd (pd ! i) (colour D (name (pd ! i))))
           (pts[i := hovered (pd ! i) (pts ! i)]))"

definition others :: "data \<Rightarrow> nat \<Rightarrow> entry list" where
  "others d i = take i (processedData d) @ drop (Suc i) (processedData d)"

subsection \<open>Example inputs\<close>

text \<open>
  A mapping with two entries, a mapping with strengths outside \<open>[-10, 10]\<close>, a mapping
  with the strength 5, a mapping with the strength \<open>20 + 2 ^ -48\<close> (the binary64 number
  next above 20, written \<open>20.000000000000004\<close>), a page that holds an unrelated element of
  class \<open>absolute\<close> next to the chart, and a page whose chart sits inside such an element.
\<close>

definition example_data :: data where
  "example_data =
     [(''A'', \<lparr>Strength = 3, Title = None, Beliefs = None, Style = None\<rparr>),
      (''B'', \<lparr>Strength = 10, Title = Some ''Parent'', Beliefs = None, Style = Some []\<rparr>)]"

definition example_page :: "node list" where
  "example_page =
     [Node (element ''html'' [] [])
        [Node (element ''head'' [] []) [],
         Node (element ''body'' [] [])
           [Node (element ''nav'' [(''class'', Str ''absolute top-0 left-0'')] []) [],
            Node (element ''div'' [(''class'', Str ''w-full bg-white rounded-lg shadow-lg p-6'')] [])
              [Container]]]]"

definition example_state :: state where
  "example_state = \<lparr>page = example_page, chartRef = Some [], env = None\<rparr>"

definition far_data :: data where
  "far_data =
     [(''inside'', \<lparr>Strength = 16, Title = None, Beliefs = None, Style = None\<rparr>),
      (''low'', \<lparr>Strength = - 12, Title = None, Beliefs = None, Style = None\<rparr>),
      (''high'', \<lparr>Strength = 24, Title = None, Beliefs = None, Style = None\<rparr>)]"

definition middle_data :: data where
  "middle_data = [(''M'', \<lparr>Strength = 5, Title = None, Beliefs = None, Style = None\<rparr>)]"

definition corner_data :: data where
  "corner_data =
     [(''corner'', \<lparr>Strength = 20 + 1 / 2 ^ 48, Title = None, Beliefs = None, Style = None\<rparr>)]"

definition example_event :: pointer_event where
  "example_event = \<lparr>pageX = 400, pageY = 300\<rparr>"

definition nested_page :: "node list" where
  "nested_page =
     [Node (element ''html'' [] [])
        [Node (element ''body'' [] [])
           [Node (element ''main'' [(''class'', Str ''absolute inset-0'')] []) [Container],
            Node (element ''footer'' [] []) []]]]"

section \<open>Lemmas\<close>

subsection \<open>Rounding\<close>

text \<open>
  The rounding fixes the integers, keeps the sign, is monotone, and \<open>expo\<close> is the exponent
  of the binade.
\<close>

lemma rne_of_int: "rne (of_int n) = n"
  by (simp add: rne_def)

lemma rne_floor: "\<lfloor>x\<rfloor> \<le> rne x" and rne_floor1: "rne x \<le> \<lfloor>x\<rfloor> + 1"
  by (simp_all add: rne_def Let_def)

lemma rne_mono: "rne x \<le> rne y" if "x \<le> y"
proof (cases "\<lfloor>x\<rfloor> = \<lfloor>y\<rfloor>")
  case True
  then show ?thesis using that by (auto simp: rne_def Let_def)
next
  case False
  then have "\<lfloor>x\<rfloor> + 1 \<le> \<lfloor>y\<rfloor>" using floor_mono [OF that] by simp
  then show ?thesis using rne_floor1 [of x] rne_floor [of y] by linarith
qed

lemma rne_ge: "n \<le> rne x" if "of_int n \<le> x"
  using rne_mono [OF that] by (simp add: rne_of_int)

lemma rne_le: "rne x \<le> n" if "x \<le> of_int n"
  using rne_mono [OF that] by (simp add: rne_of_int)

lemma expo_bounds:
  assumes "x \<noteq> 0"
  shows "2 powi expo x \<le> \<bar>x\<bar>" and "\<bar>x\<bar> < 2 powi (expo x + 1)"
proof -
  have "2 powi expo x \<le> \<bar>x\<bar> \<and> \<bar>x\<bar> < 2 powi (expo x + 1)"
  proof (cases "1 \<le> \<bar>x\<bar>")
    case True
    let ?n = "\<lfloor>\<bar>x\<bar>\<rfloor>"
    have n: "0 < ?n" using True by simp
    have b: "1 \<le> bitlen ?n" using n bitlen_eq_zero_iff [of ?n] bitlen_nonneg [of ?n] by linarith
    note bb = bitlen_bounds [OF n]
    have e: "expo x = bitlen ?n - 1" using True by (simp add: expo_def)
    have 1: "(2::real) powi (bitlen ?n - 1) = 2 ^ nat (bitlen ?n - 1)"
      using b by (simp add: power_int_def)
    have 2: "(2::real) powi (bitlen ?n) = 2 ^ nat (bitlen ?n)"
      using b by (simp add: power_int_def)
    have "(2::real) ^ nat (bitlen ?n - 1) \<le> of_int ?n"
      using bb by (metis of_int_le_iff of_int_numeral of_int_power)
    also have "\<dots> \<le> \<bar>x\<bar>" by simp
    finally have lo: "(2::real) ^ nat (bitlen ?n - 1) \<le> \<bar>x\<bar>" .
    have "?n + 1 \<le> 2 ^ nat (bitlen ?n)" using bb by simp
    then have "of_int (?n + 1) \<le> (2::real) ^ nat (bitlen ?n)"
      by (metis of_int_le_iff of_int_numeral of_int_power)
    moreover have "\<bar>x\<bar> < of_int (?n + 1)" by linarith
    ultimately have hi: "\<bar>x\<bar> < (2::real) ^ nat (bitlen ?n)" by linarith
    show ?thesis using lo hi by (simp add: e 1 2)
  next
    case False
    let ?y = "1 / \<bar>x\<bar>"
    let ?c = "\<lceil>?y\<rceil>"
    let ?k = "bitlen (?c - 1)"
    have x: "0 < \<bar>x\<bar>" "\<bar>x\<bar> < 1" using assms False by simp_all
    have y: "1 < ?y" using x by simp
    have c: "0 < ?c - 1" using y by linarith
    have k: "1 \<le> ?k" using c bitlen_eq_zero_iff [of "?c - 1"] bitlen_nonneg [of "?c - 1"] by linarith
    note bb = bitlen_bounds [OF c]
    have e: "expo x = - ?k" using False by (simp add: expo_def)
    have "(2::real) ^ nat (?k - 1) \<le> of_int (?c - 1)"
      using bb by (metis of_int_le_iff of_int_numeral of_int_power)
    also have "\<dots> < ?y" by linarith
    finally have lo: "(2::real) ^ nat (?k - 1) < ?y" .
    have "?c \<le> 2 ^ nat ?k" using bb by simp
    then have "of_int ?c \<le> (2::real) ^ nat ?k"
      by (metis of_int_le_iff of_int_numeral of_int_power)
    moreover have "?y \<le> of_int ?c" by linarith
    ultimately have hi: "?y \<le> (2::real) ^ nat ?k" by linarith
    have 1: "(2::real) powi (- ?k) = 1 / 2 ^ nat ?k"
      using k by (simp add: power_int_def field_simps)
    have 2: "(2::real) powi (1 - ?k) = 1 / 2 ^ nat (?k - 1)"
      using k by (simp add: power_int_def field_simps nat_diff_distrib)
    have "1 / 2 ^ nat ?k \<le> \<bar>x\<bar>"
      using hi x by (simp add: field_simps)
    moreover have "\<bar>x\<bar> < 1 / 2 ^ nat (?k - 1)"
      using lo x by (simp add: field_simps)
    ultimately show ?thesis by (simp add: e 1 2)
  qed
  then show "2 powi expo x \<le> \<bar>x\<bar>" and "\<bar>x\<bar> < 2 powi (expo x + 1)" by simp_all
qed

lemma pow2_less_iff: "(2::real) powi m < 2 powi n \<longleftrightarrow> m < n"
proof
  assume l: "(2::real) powi m < 2 powi n"
  show "m < n"
  proof (rule ccontr)
    assume "\<not> m < n"
    then have "n \<le> m" by simp
    then have "(2::real) powi n \<le> 2 powi m" by (intro power_int_increasing) simp_all
    then show False using l by simp
  qed
next
  assume "m < n"
  then show "(2::real) powi m < 2 powi n" by (intro power_int_strict_increasing) simp_all
qed

lemma pow2_le_iff: "(2::real) powi m \<le> 2 powi n \<longleftrightarrow> m \<le> n"
  using pow2_less_iff [of n m] by (simp add: not_less [symmetric])

lemma expo_unique:
  assumes "2 powi e \<le> \<bar>x\<bar>" and "\<bar>x\<bar> < 2 powi (e + 1)"
  shows "expo x = e"
proof -
  have p: "(0::real) < 2 powi e" by simp
  from p assms(1) have "0 < \<bar>x\<bar>" by linarith
  then have x: "x \<noteq> 0" by simp
  note b = expo_bounds [OF x]
  have "(2::real) powi e < 2 powi (expo x + 1)" using assms(1) b(2) by linarith
  then have 1: "e < expo x + 1" by (simp add: pow2_less_iff)
  have "(2::real) powi expo x < 2 powi (e + 1)" using assms(2) b(1) by linarith
  then have 2: "expo x < e + 1" by (simp add: pow2_less_iff)
  show ?thesis using 1 2 by simp
qed

lemma binary64_eq:
  assumes "2 powi e \<le> \<bar>x\<bar>" and "\<bar>x\<bar> < 2 powi (e + 1)"
  shows "binary64 x = of_int (rne (x / 2 powi (e - 52))) * 2 powi (e - 52)"
proof -
  have p: "(0::real) < 2 powi e" by simp
  from p assms(1) have "0 < \<bar>x\<bar>" by linarith
  then have x: "x \<noteq> 0" by simp
  show ?thesis using x by (simp add: binary64_def Let_def expo_unique [OF assms])
qed

lemma significand:
  assumes "x \<noteq> 0"
  shows "2 ^ 52 \<le> \<bar>x / 2 powi (expo x - 52)\<bar>" and "\<bar>x / 2 powi (expo x - 52)\<bar> < 2 ^ 53"
proof -
  note b = expo_bounds [OF assms]
  have u: "(2::real) powi (expo x - 52) = 2 powi expo x / 2 ^ 52"
    by (simp add: power_int_diff)
  have p: "(0::real) < 2 powi expo x" by simp
  show "2 ^ 52 \<le> \<bar>x / 2 powi (expo x - 52)\<bar>"
    using b(1) p by (simp add: u abs_mult field_simps)
  have "\<bar>x\<bar> < 2 * 2 powi expo x" using b(2) by (simp add: power_int_add)
  then show "\<bar>x / 2 powi (expo x - 52)\<bar> < 2 ^ 53"
    using p by (simp add: u abs_mult field_simps)
qed

lemma binary64_pos:
  assumes "0 < x"
  shows "2 powi expo x \<le> binary64 x" and "binary64 x \<le> 2 powi (expo x + 1)"
proof -
  let ?u = "(2::real) powi (expo x - 52)"
  have x: "x \<noteq> 0" using assms by simp
  have u: "0 < ?u" by simp
  have m: "0 < x / ?u" using assms u by simp
  note s = significand [OF x]
  have "of_int (2 ^ 52) \<le> x / ?u" using s(1) m by (simp add: abs_if split: if_splits)
  then have lo: "2 ^ 52 \<le> rne (x / ?u)" by (rule rne_ge)
  have "x / ?u \<le> of_int (2 ^ 53)" using s(2) m by (simp add: abs_if split: if_splits)
  then have hi: "rne (x / ?u) \<le> 2 ^ 53" by (rule rne_le)
  have 1: "(2::real) powi expo x = 2 ^ 52 * ?u" by (simp add: power_int_diff)
  have 2: "(2::real) powi (expo x + 1) = 2 ^ 53 * ?u" by (simp add: power_int_diff power_int_add)
  have "(2::real) ^ 52 \<le> of_int (rne (x / ?u))"
    using lo by (metis of_int_le_iff of_int_numeral of_int_power)
  then show "2 powi expo x \<le> binary64 x"
    unfolding 1 using x u by (simp add: binary64_def Let_def)
  have "of_int (rne (x / ?u)) \<le> (2::real) ^ 53"
    using hi by (metis of_int_le_iff of_int_numeral of_int_power)
  then show "binary64 x \<le> 2 powi (expo x + 1)"
    unfolding 2 using x u by (simp add: binary64_def Let_def)
qed

lemma binary64_neg:
  assumes "x < 0"
  shows "binary64 x \<le> - (2 powi expo x)" and "- (2 powi (expo x + 1)) \<le> binary64 x"
proof -
  let ?u = "(2::real) powi (expo x - 52)"
  have x: "x \<noteq> 0" using assms by simp
  have u: "0 < ?u" by simp
  have m: "x / ?u < 0" using assms u by (simp add: field_simps)
  note s = significand [OF x]
  have "x / ?u \<le> of_int (- (2 ^ 52))" using s(1) m by (simp add: abs_if split: if_splits)
  then have hi: "rne (x / ?u) \<le> - (2 ^ 52)" by (rule rne_le)
  have "of_int (- (2 ^ 53)) \<le> x / ?u" using s(2) m by (simp add: abs_if split: if_splits)
  then have lo: "- (2 ^ 53) \<le> rne (x / ?u)" by (rule rne_ge)
  have 1: "(2::real) powi expo x = 2 ^ 52 * ?u" by (simp add: power_int_diff)
  have 2: "(2::real) powi (expo x + 1) = 2 ^ 53 * ?u" by (simp add: power_int_diff power_int_add)
  have "of_int (rne (x / ?u)) \<le> - ((2::real) ^ 52)"
    using hi by (metis of_int_le_iff of_int_minus of_int_numeral of_int_power)
  then have "of_int (rne (x / ?u)) * ?u \<le> (- (2 ^ 52)) * ?u"
    using u by (intro mult_right_mono) simp_all
  then show "binary64 x \<le> - (2 powi expo x)"
    unfolding 1 using x by (simp add: binary64_def Let_def)
  have "- ((2::real) ^ 53) \<le> of_int (rne (x / ?u))"
    using lo by (metis of_int_le_iff of_int_minus of_int_numeral of_int_power)
  then have "(- (2 ^ 53)) * ?u \<le> of_int (rne (x / ?u)) * ?u"
    using u by (intro mult_right_mono) simp_all
  then show "- (2 powi (expo x + 1)) \<le> binary64 x"
    unfolding 2 using x by (simp add: binary64_def Let_def)
qed

lemma binary64_0: "binary64 0 = 0"
  by (simp add: binary64_def)

lemma binary64_pos_iff: "0 < binary64 x \<longleftrightarrow> 0 < x"
proof -
  have p: "(0::real) < 2 powi expo x" by simp
  consider "x < 0" | "x = 0" | "0 < x" by linarith
  then show ?thesis
  proof cases
    case 1 then show ?thesis using binary64_neg(1) [OF 1] p by linarith
  next
    case 2 then show ?thesis by (simp add: binary64_0)
  next
    case 3 then show ?thesis using binary64_pos(1) [OF 3] p by linarith
  qed
qed

lemma binary64_neg_iff: "binary64 x < 0 \<longleftrightarrow> x < 0"
proof -
  have p: "(0::real) < 2 powi expo x" by simp
  consider "x < 0" | "x = 0" | "0 < x" by linarith
  then show ?thesis
  proof cases
    case 1 then show ?thesis using binary64_neg(1) [OF 1] p by linarith
  next
    case 2 then show ?thesis by (simp add: binary64_0)
  next
    case 3 then show ?thesis using binary64_pos(1) [OF 3] p by linarith
  qed
qed

lemma expo_mono:
  assumes "x \<noteq> 0" and "\<bar>x\<bar> \<le> \<bar>y\<bar>"
  shows "expo x \<le> expo y"
proof -
  have y: "y \<noteq> 0" using assms by auto
  have "(2::real) powi expo x < 2 powi (expo y + 1)"
    using expo_bounds(1) [OF assms(1)] expo_bounds(2) [OF y] assms(2) by linarith
  then show ?thesis by (simp add: pow2_less_iff)
qed

lemma binary64_mono:
  assumes "x \<le> y"
  shows "binary64 x \<le> binary64 y"
proof -
  consider "x < 0 \<and> 0 \<le> y" | "x = 0" | "0 < x" | "y < 0" using assms by linarith
  then show ?thesis
  proof cases
    case 1
    then show ?thesis using binary64_neg_iff [of x] binary64_neg_iff [of y] by linarith
  next
    case 2
    then show ?thesis using binary64_neg_iff [of y] assms by (simp add: binary64_0 not_less)
  next
    case 3
    then have y: "0 < y" using assms by linarith
    have e: "expo x \<le> expo y" using 3 y assms by (intro expo_mono) simp_all
    show ?thesis
    proof (cases "expo x = expo y")
      case True
      let ?u = "(2::real) powi (expo y - 52)"
      have u: "0 < ?u" by simp
      have "x / ?u \<le> y / ?u" using assms u by (simp add: divide_right_mono)
      then have "rne (x / ?u) \<le> rne (y / ?u)" by (rule rne_mono)
      then have "real_of_int (rne (x / ?u)) * ?u \<le> real_of_int (rne (y / ?u)) * ?u"
        using u by simp
      then show ?thesis using 3 y by (simp add: binary64_def Let_def True)
    next
      case False
      then have "expo x + 1 \<le> expo y" using e by simp
      then have "(2::real) powi (expo x + 1) \<le> 2 powi expo y"
        by (simp add: pow2_le_iff)
      then show ?thesis using binary64_pos(2) [OF 3] binary64_pos(1) [OF y] by linarith
    qed
  next
    case 4
    then have x: "x < 0" using assms by linarith
    have e: "expo y \<le> expo x" using 4 x assms by (intro expo_mono) simp_all
    show ?thesis
    proof (cases "expo x = expo y")
      case True
      let ?u = "(2::real) powi (expo y - 52)"
      have u: "0 < ?u" by simp
      have "x / ?u \<le> y / ?u" using assms u by (simp add: divide_right_mono)
      then have "rne (x / ?u) \<le> rne (y / ?u)" by (rule rne_mono)
      then have "real_of_int (rne (x / ?u)) * ?u \<le> real_of_int (rne (y / ?u)) * ?u"
        using u by simp
      then show ?thesis using 4 x by (simp add: binary64_def Let_def True)
    next
      case False
      then have "expo y + 1 \<le> expo x" using e by simp
      then have "(2::real) powi (expo y + 1) \<le> 2 powi expo x"
        by (simp add: pow2_le_iff)
      then show ?thesis using binary64_neg(1) [OF x] binary64_neg(2) [OF 4] by linarith
    qed
  qed
qed

subsection \<open>Paths and the children of an element\<close>

lemma remove_all_True: "remove_all (\<lambda>n. True) ks = []"
  by (induction "\<lambda>n::node. True" ks rule: remove_all.induct) auto

lemma kids_at_append: "kids_at (p @ q) ks = kids_at q (kids_at p ks)"
proof (induction p arbitrary: ks)
  case Nil
  show ?case by simp
next
  case (Cons i p)
  have "kids_at q [] = []" by (cases q) auto
  with Cons show ?case by simp
qed

lemma kids_map_append: "kids_map (p @ q) f ks = kids_map p (kids_map q f) ks"
  by (induction p arbitrary: ks) (auto split: node.splits)

lemma kids_map_comp: "kids_map p f (kids_map p g ks) = kids_map p (\<lambda>cs. f (g cs)) ks"
  by (induction p arbitrary: ks) (auto split: node.splits)

lemma kids_at_kids_map: "valid p ks \<Longrightarrow> kids_at p (kids_map p f ks) = f (kids_at p ks)"
  by (induction p arbitrary: ks) (auto split: node.splits)

lemma valid_kids_map: "valid p (kids_map p f ks) = valid p ks"
  by (induction p arbitrary: ks) (auto split: node.splits)

lemma valid_append: "valid (p @ q) ks = (valid p ks \<and> valid q (kids_at p ks))"
  by (induction p arbitrary: ks) (auto split: node.splits)

lemma list_update_same: "ks ! i = x \<Longrightarrow> ks[i := x] = ks"
  using list_update_id [of ks i] by simp

lemma modify_at_Cons: "modify_at (i # r) f ks = upd_nth i (node_modify r f) ks"
proof (cases "r = []")
  case True
  then show ?thesis by (simp add: modify_at_def upd_nth_def node_modify_def)
next
  case False
  then have "last (i # r) = last r" "butlast (i # r) = i # butlast r" by simp_all
  with False show ?thesis
    by (auto simp: modify_at_def upd_nth_def node_modify_def list_update_same
             cong: if_cong split: node.splits)
qed

lemma modify_at_sibling: "modify_at (p @ i # r) f ks = kids_map p (upd_nth i (node_modify r f)) ks"
proof (induction p arbitrary: ks)
  case Nil
  show ?case by (simp add: modify_at_Cons)
next
  case (Cons j p)
  have ne: "p @ i # r \<noteq> []" by simp
  have "modify_at ((j # p) @ i # r) f ks = upd_nth j (node_modify (p @ i # r) f) ks"
    by (simp add: modify_at_Cons)
  also have "\<dots> = kids_map (j # p) (upd_nth i (node_modify r f)) ks"
    using Cons [of "node_kids (ks ! j)"]
    by (auto simp: upd_nth_def [of j] node_modify_def [of "p @ i # r"] list_update_same
             split: node.splits)
  finally show ?case .
qed

lemma kids_map_single: "kids_map [i] f ks = upd_nth i (\<lambda>n. case n of Node e cs \<Rightarrow> Node e (f cs) | Container \<Rightarrow> Container) ks"
  by (auto simp: upd_nth_def list_update_same split: node.splits)

lemma append_at_sibling:
  "append_at (p @ [i]) n ks =
     (kids_map p (upd_nth i (add_kid n)) ks, p @ [i, length (node_kids (kids_at p ks ! i))])"
  if "i < length (kids_at p ks)"
proof -
  have "(\<lambda>n'. case n' of Node e cs \<Rightarrow> Node e (cs @ [n]) | Container \<Rightarrow> Container) = add_kid n"
    by (rule ext) (simp split: node.splits)
  then have "kids_map (p @ [i]) (\<lambda>cs. cs @ [n]) ks = kids_map p (upd_nth i (add_kid n)) ks"
    by (simp add: kids_map_append kids_map_single [abs_def])
  moreover have "kids_at (p @ [i]) ks = node_kids (kids_at p ks ! i)"
    using that by (simp add: kids_at_append)
  ultimately show ?thesis by (simp add: append_at_def)
qed

lemma node_at_snoc:
  "node_at (p @ [i]) ks = (if i < length (kids_at p ks) then Some (kids_at p ks ! i) else None)"
  by (simp add: node_at_def)

lemma kids_map_cong_at:
  "f (kids_at p ks) = g (kids_at p ks) \<Longrightarrow> kids_map p f ks = kids_map p g ks"
  by (induction p arbitrary: ks) (auto split: node.splits)

lemma upd_nth_mid:
  assumes "m < length mid" "length A = m"
  shows "upd_nth (length pre + m) F (pre @ A @ drop m mid @ post)
         = pre @ (A @ [F (mid ! m)]) @ drop (Suc m) mid @ post"
proof -
  have d: "drop m mid = mid ! m # drop (Suc m) mid"
    using assms(1) by (simp add: Cons_nth_drop_Suc)
  have "length pre + m < length (pre @ A @ drop m mid @ post)"
    using assms by simp
  then show ?thesis
    using assms by (simp add: upd_nth_def d nth_append list_update_append del: length_append)
qed

lemma nth_mid:
  assumes "m < length mid" "length A = m"
  shows "(pre @ A @ drop m mid @ post) ! (length pre + m) = mid ! m"
  using assms by (simp add: nth_append)

lemma length_mid:
  assumes "m < length mid" "length A = m"
  shows "length pre + m < length (pre @ A @ drop m mid @ post)"
  using assms by simp

lemma node_at_Cons:
  "node_at (i # r) ks = (if i < length ks then node_rel r (ks ! i) else None)"
proof (cases "r = []")
  case True
  then show ?thesis by (simp add: node_at_def)
next
  case False
  then obtain j r' where r: "r = j # r'" by (cases r) auto
  have "butlast (i # r) = i # butlast r" "last (i # r) = last r"
    using False by simp_all
  then show ?thesis
    by (simp add: node_at_def r Let_def cong: if_cong)
qed

lemma node_at_sibling:
  "node_at (p @ i # r) ks
     = (if i < length (kids_at p ks) then node_rel r (kids_at p ks ! i) else None)"
proof (induction p arbitrary: ks)
  case Nil
  show ?case by (simp add: node_at_Cons)
next
  case (Cons j p)
  have "node_rel (p @ i # r) n = node_at (p @ i # r) (node_kids n)" for n
    by (cases "p @ i # r") auto
  then show ?case
    using Cons by (simp add: node_at_Cons)
qed

subsection \<open>Entering data\<close>

lemma enter_fold:
  assumes "valid p t"
  shows "fold (\<lambda>(i, d) (t, qs).
            (let (t', q) = append_at p (Node ((mk i d)\<lparr>datum := Some d\<rparr>) []) t
             in (t', qs @ [q]))) xs (t, qs)
       = (kids_map p (\<lambda>cs. cs @ map (new_node mk) xs) t,
          qs @ map (\<lambda>j. p @ [length (kids_at p t) + j]) [0..<length xs])"
  using assms
proof (induction xs arbitrary: t qs)
  case Nil
  have "kids_map p (\<lambda>cs. cs) t = t"
    by (induction p arbitrary: t) (auto simp: list_update_same split: node.splits)
  then show ?case by simp
next
  case (Cons x xs)
  obtain i d where x: "x = (i, d)" by (cases x)
  let ?n = "Node ((mk i d)\<lparr>datum := Some d\<rparr>) []"
  let ?t = "kids_map p (\<lambda>cs. cs @ [?n]) t"
  have v: "valid p ?t" using Cons.prems by (simp add: valid_kids_map)
  have k: "kids_at p ?t = kids_at p t @ [?n]"
    using Cons.prems by (simp add: kids_at_kids_map)
  have m: "map (\<lambda>j. p @ [length (kids_at p t) + j]) [0..<Suc (length xs)]
           = (p @ [length (kids_at p t)]) # map (\<lambda>j. p @ [Suc (length (kids_at p t) + j)]) [0..<length xs]"
    by (simp add: map_upt_Suc del: upt_Suc)
  show ?case
    using Cons.IH [OF v, of "qs @ [p @ [length (kids_at p t)]]"]
    by (simp add: x append_at_def k kids_map_comp new_node_def m del: upt_Suc)
qed

lemma enter_append_closed:
  assumes "valid p t"
  shows "enter_append p k ds mk t
       = (kids_map p (\<lambda>cs. cs @ map (new_node mk) (enumerate k (drop k ds))) t,
          map (\<lambda>j. p @ [length (kids_at p t) + j]) [0..<length ds - k])"
  unfolding enter_append_def using enter_fold [OF assms, of mk _ "[]"] by simp

subsection \<open>Appending to a row of siblings\<close>

lemma fold_map_upt_Suc: "fold f (map g [0..<Suc m]) s = f (g m) (fold f (map g [0..<m]) s)"
  by simp

lemma sel_append_siblings:
  assumes v: "valid p t" and k: "kids_at p t = pre @ mid @ post"
    and dat: "\<forall>m \<in> set mid. node_datum m \<noteq> None"
  shows "sel_append (map (\<lambda>j. p @ [length pre + j]) [0..<length mid]) mk t
       = (kids_map p (\<lambda>_. pre @ map (add_child mk) mid @ post) t,
          map (\<lambda>j. p @ [length pre + j, length (node_kids (mid ! j))]) [0..<length mid])"
proof -
  let ?step = "\<lambda>p (t, qs).
            (case Option.bind (node_at p t) node_datum of
               Some d \<Rightarrow>
                 (let (t', q) = append_at p (Node ((mk d)\<lparr>datum := Some d\<rparr>) []) t
                  in (t', qs @ [q]))
             | None \<Rightarrow> (t, qs))"
  let ?g = "\<lambda>j. p @ [length pre + j]"
  have "m \<le> length mid \<Longrightarrow>
        fold ?step (map ?g [0..<m]) (t, [])
        = (kids_map p (\<lambda>_. pre @ map (add_child mk) (take m mid) @ drop m mid @ post) t,
           map (\<lambda>j. p @ [length pre + j, length (node_kids (mid ! j))]) [0..<m])" for m
  proof (induction m)
    case 0
    have "kids_map p (\<lambda>_. pre @ mid @ post) t = kids_map p (\<lambda>cs. cs) t"
      by (rule kids_map_cong_at) (simp add: k)
    also have "\<dots> = t"
      by (induction p arbitrary: t) (auto simp: list_update_same split: node.splits)
    finally show ?case by simp
  next
    case (Suc m)
    then have m: "m < length mid" by simp
    let ?A = "map (add_child mk) (take m mid)"
    let ?L = "pre @ ?A @ drop m mid @ post"
    let ?T = "kids_map p (\<lambda>_. ?L) t"
    have lA: "length ?A = m" using m by simp
    have kT: "kids_at p ?T = ?L" using v by (simp add: kids_at_kids_map)
    obtain d where d: "node_datum (mid ! m) = Some d"
      using dat m by (metis nth_mem not_Some_eq)
    have na: "node_at (?g m) ?T = Some (mid ! m)"
      unfolding node_at_snoc kT using nth_mid [OF m lA] length_mid [OF m lA] by simp
    have ap: "append_at (?g m) n ?T
              = (kids_map p (\<lambda>_. pre @ (?A @ [add_kid n (mid ! m)]) @ drop (Suc m) mid @ post) t,
                 p @ [length pre + m, length (node_kids (mid ! m))])" for n
    proof -
      have i: "length pre + m < length (kids_at p ?T)"
        unfolding kT using length_mid [OF m lA] .
      show ?thesis
        unfolding append_at_sibling [OF i] kT
        using nth_mid [OF m lA, of pre post] upd_nth_mid [OF m lA, of pre _ post]
        by (simp add: kids_map_comp)
    qed
    have tk: "take (Suc m) mid = take m mid @ [mid ! m]"
      using m by (simp add: take_Suc_conv_app_nth)
    have "fold ?step (map ?g [0..<Suc m]) (t, [])
          = ?step (?g m) (fold ?step (map ?g [0..<m]) (t, []))"
      by (rule fold_map_upt_Suc)
    also have "\<dots> = ?step (?g m)
         (?T, map (\<lambda>j. p @ [length pre + j, length (node_kids (mid ! j))]) [0..<m])"
      using Suc by simp
    also have "\<dots> = (kids_map p (\<lambda>_. pre @ map (add_child mk) (take (Suc m) mid)
                                        @ drop (Suc m) mid @ post) t,
           map (\<lambda>j. p @ [length pre + j, length (node_kids (mid ! j))]) [0..<Suc m])"
      by (simp add: na d ap tk add_child_def del: upt_Suc) simp
    finally show ?case .
  qed
  from this [of "length mid"] show ?thesis
    by (simp add: sel_append_def)
qed

subsection \<open>Modifying a row of siblings\<close>

lemma enumerate_map_upt: "enumerate 0 (map g [0..<n]) = map (\<lambda>j. (j, g j)) [0..<n]"
  by (rule nth_equalityI) (simp_all add: nth_enumerate_eq)

lemma kids_map_id: "kids_map p (\<lambda>cs. cs) t = t"
  by (induction p arbitrary: t) (auto simp: list_update_same split: node.splits)

lemma kids_map_same: "kids_at p t = L \<Longrightarrow> kids_map p (\<lambda>_. L) t = t"
  using kids_map_cong_at [of "\<lambda>_. L" p t "\<lambda>cs. cs"] by (simp add: kids_map_id)

lemma sel_modify_siblings:
  assumes v: "valid p t" and k: "kids_at p t = pre @ mid @ post"
  shows "sel_modify (map (\<lambda>j. p @ (length pre + j) # r) [0..<length mid]) f t
       = kids_map p (\<lambda>_. pre @ map (\<lambda>j. node_modify r (f j) (mid ! j)) [0..<length mid] @ post) t"
proof -
  let ?g = "\<lambda>j. (j, p @ (length pre + j) # r)"
  let ?step = "\<lambda>(i, q). modify_at q (f i)"
  have "m \<le> length mid \<Longrightarrow>
        fold ?step (map ?g [0..<m]) t
        = kids_map p (\<lambda>_. pre @ map (\<lambda>j. node_modify r (f j) (mid ! j)) [0..<m]
                              @ drop m mid @ post) t" for m
  proof (induction m)
    case 0
    show ?case by (simp add: kids_map_same k)
  next
    case (Suc m)
    then have m: "m < length mid" by simp
    let ?A = "map (\<lambda>j. node_modify r (f j) (mid ! j)) [0..<m]"
    have lA: "length ?A = m" by simp
    have "fold ?step (map ?g [0..<Suc m]) t = ?step (?g m) (fold ?step (map ?g [0..<m]) t)"
      by (rule fold_map_upt_Suc)
    also have "\<dots> = modify_at (p @ (length pre + m) # r) (f m)
                       (kids_map p (\<lambda>_. pre @ ?A @ drop m mid @ post) t)"
      using Suc by simp
    also have "\<dots> = kids_map p (\<lambda>_. pre @ (?A @ [node_modify r (f m) (mid ! m)])
                                     @ drop (Suc m) mid @ post) t"
      unfolding modify_at_sibling kids_map_comp upd_nth_mid [OF m lA] ..
    finally show ?case by simp
  qed
  from this [of "length mid"] show ?thesis
    by (simp add: sel_modify_def enumerate_map_upt)
qed

subsection \<open>Colouring a row of siblings\<close>

lemma sel_fill_siblings:
  assumes v: "valid p t" and k: "kids_at p t = pre @ mid @ post"
    and dat: "\<forall>j < length mid. target_datum r (mid ! j) = Some (ds ! j)"
    and len: "length ds = length mid"
  shows "sel_fill (map (\<lambda>j. p @ (length pre + j) # r) [0..<length mid]) (t, dm)
       = (kids_map p (\<lambda>_. pre @ map (\<lambda>j. node_modify r
               (set_style ''fill'' (Str (colour (domain_after dm (map name (take j ds))) (name (ds ! j)))))
               (mid ! j)) [0..<length mid] @ post) t,
          domain_after dm (map name (take (length mid) ds)))"
proof -
  let ?g = "\<lambda>j. p @ (length pre + j) # r"
  let ?step = "\<lambda>p (t, dm).
            (case Option.bind (node_at p t) node_datum of
               Some d \<Rightarrow>
                 (let (c, dm') = colorScale dm (name d)
                  in (modify_at p (set_style ''fill'' (Str c)) t, dm'))
             | None \<Rightarrow> (t, dm))"
  let ?H = "\<lambda>j. node_modify r
               (set_style ''fill'' (Str (colour (domain_after dm (map name (take j ds))) (name (ds ! j)))))
               (mid ! j)"
  have "m \<le> length mid \<Longrightarrow>
        fold ?step (map ?g [0..<m]) (t, dm)
        = (kids_map p (\<lambda>_. pre @ map ?H [0..<m] @ drop m mid @ post) t,
           domain_after dm (map name (take m ds)))" for m
  proof (induction m)
    case 0
    show ?case by (simp add: kids_map_same k domain_after_def)
  next
    case (Suc m)
    then have m: "m < length mid" by simp
    let ?A = "map ?H [0..<m]"
    let ?L = "pre @ ?A @ drop m mid @ post"
    let ?T = "kids_map p (\<lambda>_. ?L) t"
    let ?dm = "domain_after dm (map name (take m ds))"
    have lA: "length ?A = m" by simp
    have kT: "kids_at p ?T = ?L" using v by (simp add: kids_at_kids_map)
    have na: "Option.bind (node_at (?g m) ?T) node_datum = Some (ds ! m)"
      unfolding node_at_sibling kT
      using nth_mid [OF m lA, of pre post] length_mid [OF m lA, of pre post] dat m
      by (simp add: target_datum_def)
    have md: "modify_at (?g m) h ?T
              = kids_map p (\<lambda>_. pre @ (?A @ [node_modify r h (mid ! m)]) @ drop (Suc m) mid @ post) t"
      for h
      unfolding modify_at_sibling kids_map_comp upd_nth_mid [OF m lA] ..
    have dm: "domain_after dm (map name (take (Suc m) ds))
              = snd (colorScale ?dm (name (ds ! m)))"
      using m len by (simp add: domain_after_def take_Suc_conv_app_nth)
    have "fold ?step (map ?g [0..<Suc m]) (t, dm)
          = ?step (?g m) (fold ?step (map ?g [0..<m]) (t, dm))"
      by (rule fold_map_upt_Suc)
    also have "\<dots> = ?step (?g m) (?T, ?dm)"
      using Suc by simp
    also have "\<dots> = (kids_map p (\<lambda>_. pre @ (?A @ [?H m]) @ drop (Suc m) mid @ post) t,
                      snd (colorScale ?dm (name (ds ! m))))"
      by (simp add: na md) (simp add: case_prod_unfold colour_def)
    finally show ?case by (simp add: dm)
  qed
  from this [of "length mid"] show ?thesis
    by (simp add: sel_fill_def)
qed

subsection \<open>The same, with the result described element by element\<close>

lemma sel_append_line:
  assumes "valid p t" "kids_at p t = pre @ mid @ post"
    and "\<forall>j < length mid. \<exists>d. node_datum (mid ! j) = Some d
            \<and> mid' ! j = add_kid (Node ((mk d)\<lparr>datum := Some d\<rparr>) []) (mid ! j)
            \<and> qs ! j = p @ [length pre + j, length (node_kids (mid ! j))]"
    and "length mid' = length mid" "length qs = length mid"
    and "ps = map (\<lambda>j. p @ [length pre + j]) [0..<length mid]"
  shows "sel_append ps mk t = (kids_map p (\<lambda>_. pre @ mid' @ post) t, qs)"
proof -
  have d: "\<forall>m \<in> set mid. node_datum m \<noteq> None"
    using assms(3) by (metis in_set_conv_nth option.distinct(1))
  have m: "map (add_child mk) mid = mid'"
    using assms(3,4) by (intro nth_equalityI) (auto simp: add_child_def)
  have q: "map (\<lambda>j. p @ [length pre + j, length (node_kids (mid ! j))]) [0..<length mid] = qs"
    using assms(3,5) by (intro nth_equalityI) auto
  show ?thesis
    unfolding assms(6) sel_append_siblings [OF assms(1,2) d] m q ..
qed

lemma sel_modify_line:
  assumes "valid p t" "kids_at p t = pre @ mid @ post"
    and "\<forall>j < length mid. mid' ! j = node_modify r (f j) (mid ! j)"
    and "length mid' = length mid"
    and "ps = map (\<lambda>j. p @ (length pre + j) # r) [0..<length mid]"
  shows "sel_modify ps f t = kids_map p (\<lambda>_. pre @ mid' @ post) t"
proof -
  have m: "map (\<lambda>j. node_modify r (f j) (mid ! j)) [0..<length mid] = mid'"
    using assms(3,4) by (intro nth_equalityI) auto
  show ?thesis
    unfolding assms(5) sel_modify_siblings [OF assms(1,2)] m ..
qed

lemma sel_fill_line:
  assumes "valid p t" "kids_at p t = pre @ mid @ post"
    and "\<forall>j < length mid. target_datum r (mid ! j) = Some (ds ! j)
            \<and> mid' ! j = node_modify r
                 (set_style ''fill''
                    (Str (colour (domain_after dm (map name (take j ds))) (name (ds ! j)))))
                 (mid ! j)"
    and "length ds = length mid" "length mid' = length mid"
    and "ps = map (\<lambda>j. p @ (length pre + j) # r) [0..<length mid]"
  shows "sel_fill ps (t, dm)
       = (kids_map p (\<lambda>_. pre @ mid' @ post) t, domain_after dm (map name ds))"
proof -
  have d: "\<forall>j < length mid. target_datum r (mid ! j) = Some (ds ! j)"
    using assms(3) by blast
  have m: "map (\<lambda>j. node_modify r
                 (set_style ''fill''
                    (Str (colour (domain_after dm (map name (take j ds))) (name (ds ! j)))))
                 (mid ! j)) [0..<length mid] = mid'"
    using assms(3,5) by (intro nth_equalityI) auto
  show ?thesis
    unfolding assms(6) sel_fill_siblings [OF assms(1,2) d assms(4)] m
    using assms(4) by simp
qed

lemma enter_append_line:
  assumes "valid p t" "kids_at p t = pre"
    and "\<forall>j < length ds. mid' ! j = Node ((mk j (ds ! j))\<lparr>datum := Some (ds ! j)\<rparr>) []
            \<and> qs ! j = p @ [length pre + j]"
    and "length mid' = length ds" "length qs = length ds"
  shows "enter_append p 0 ds mk t = (kids_map p (\<lambda>_. pre @ mid') t, qs)"
proof -
  have m: "map (new_node mk) (enumerate 0 ds) = mid'"
    using assms(3,4) by (intro nth_equalityI) (auto simp: new_node_def nth_enumerate_eq)
  have q: "map (\<lambda>j. p @ [length pre + j]) [0..<length ds] = qs"
    using assms(3,5) by (intro nth_equalityI) auto
  have "kids_map p (\<lambda>cs. cs @ mid') t = kids_map p (\<lambda>_. pre @ mid') t"
    by (rule kids_map_cong_at) (simp add: assms(2))
  then show ?thesis
    using enter_append_closed [OF assms(1), of 0 ds mk] by (simp add: m q assms(2))
qed

lemma dims [simp]: "width = 680" "height = 580" "margin_left = 60" "margin_top = 60"
  "margin_right = 160" "margin_bottom = 60"
  by (simp_all add: width_def height_def margin_left_def margin_right_def margin_top_def
        margin_bottom_def)

lemma wrap_valid [simp]: "valid svg_path (wrap ks)"
  by (simp add: wrap_def svg_path_def)

lemma wrap_kids [simp]: "kids_at svg_path (wrap ks) = ks"
  by (simp add: wrap_def svg_path_def)

lemma wrap_kids_map [simp]: "kids_map svg_path f (wrap ks) = wrap (f ks)"
  by (simp add: wrap_def svg_path_def)

lemma wrap_append [simp]:
  "append_at svg_path n (wrap ks) = (wrap (ks @ [n]), svg_path @ [length ks])"
  by (simp add: append_at_def)

lemma create_svg_closed: "create_svg [] = (wrap [], svg_path)"
  by (simp add: create_svg_def append_at_def wrap_def svg_elem_def g_elem_def svg_path_def)

lemma length_furniture [simp]: "length (furniture l) = 6"
  by (simp add: furniture_def)

lemma frame_closed:
  "append_at svg_path (Node (element ''g'' [(''class'', Str ''connections'')] []) [])
     (add_axes svg_path (makeGrid svg_path (add_gradient svg_path (wrap []))))
   = (wrap (furniture []), svg_path @ [5])"
  by (simp add: add_axes_def makeGrid_def add_gradient_def furniture_def)
     (simp add: wrap_def append_at_def svg_path_def)

lemma select_all_wrap:
  "select_all svg_path c (wrap ks) = map ((@) svg_path) (matching (has_class c) 0 ks)"
  by (simp add: select_all_def)

lemma add_points_indexed:
  assumes nodots: "matching (has_class ''dot'') 0 ks = []"
  shows "add_points svg_path pd (wrap ks, dm)
       = (wrap (ks @ map (\<lambda>j. point_group
                    (colour (domain_after dm (map name (take j pd))) (name (pd ! j))) (pd ! j))
                  [0..<length pd]),
          domain_after dm (map name pd))"
proof -
  let ?n = "length pd"
  let ?mk = "\<lambda>(i::nat) (d::entry). element ''g'' [(''class'', Str ''point-group'')] []"
  let ?g = "\<lambda>d. (element ''g'' [(''class'', Str ''point-group'')] [])\<lparr>datum := Some d\<rparr>"
  let ?glow = "\<lambda>d. Node ((glow_circle d)\<lparr>datum := Some d\<rparr>) []"
  let ?dot = "\<lambda>d. Node ((dot_circle d)\<lparr>datum := Some d\<rparr>) []"
  let ?c = "\<lambda>j. colour (domain_after dm (map name (take j pd))) (name (pd ! j))"
  let ?N0 = "\<lambda>j. Node (?g (pd ! j)) []"
  let ?N1 = "\<lambda>j. Node (?g (pd ! j)) [?glow (pd ! j)]"
  let ?N2 = "\<lambda>j. Node (?g (pd ! j)) [?glow (pd ! j), ?dot (pd ! j)]"
  let ?N3 = "\<lambda>j. Node (?g (pd ! j))
                   [?glow (pd ! j), set_style ''fill'' (Str (?c j)) (?dot (pd ! j))]"
  let ?N4 = "\<lambda>j. Node (?g (pd ! j))
                   [?glow (pd ! j), dot_rest j (set_style ''fill'' (Str (?c j)) (?dot (pd ! j)))]"
  let ?P = "map (\<lambda>j. svg_path @ [length ks + j]) [0..<?n]"
  let ?D = "map (\<lambda>j. svg_path @ [length ks + j, 1]) [0..<?n]"
  have s0: "length (select_all svg_path ''dot'' (wrap ks)) = 0"
    by (simp add: select_all_wrap nodots)
  have e1: "enter_append svg_path 0 pd ?mk (wrap ks) = (wrap (ks @ map ?N0 [0..<?n]), ?P)"
    by (subst enter_append_line [where pre = ks and mid' = "map ?N0 [0..<?n]" and qs = ?P])
       simp_all
  have e2: "sel_append ?P glow_circle (wrap (ks @ map ?N0 [0..<?n]))
            = (wrap (ks @ map ?N1 [0..<?n]), map (\<lambda>j. svg_path @ [length ks + j, 0]) [0..<?n])"
    by (subst sel_append_line [where p = svg_path and pre = ks and mid = "map ?N0 [0..<?n]"
          and post = "[]" and mid' = "map ?N1 [0..<?n]"
          and qs = "map (\<lambda>j. svg_path @ [length ks + j, 0]) [0..<?n]"])
       simp_all
  have e3: "sel_append ?P dot_circle (wrap (ks @ map ?N1 [0..<?n]))
            = (wrap (ks @ map ?N2 [0..<?n]), ?D)"
    by (subst sel_append_line [where p = svg_path and pre = ks and mid = "map ?N1 [0..<?n]"
          and post = "[]" and mid' = "map ?N2 [0..<?n]" and qs = ?D])
       simp_all
  have e4: "sel_fill ?D (wrap (ks @ map ?N2 [0..<?n]), dm)
            = (wrap (ks @ map ?N3 [0..<?n]), domain_after dm (map name pd))"
    by (subst sel_fill_line [where p = svg_path and pre = ks and mid = "map ?N2 [0..<?n]"
          and post = "[]" and mid' = "map ?N3 [0..<?n]" and r = "[1]"])
       (simp_all add: target_datum_def node_at_def node_modify_def modify_at_def)
  have e5: "sel_modify ?D dot_rest (wrap (ks @ map ?N3 [0..<?n])) = wrap (ks @ map ?N4 [0..<?n])"
    by (subst sel_modify_line [where p = svg_path and pre = ks and mid = "map ?N3 [0..<?n]"
          and post = "[]" and mid' = "map ?N4 [0..<?n]" and r = "[1]"])
       (simp_all add: node_modify_def modify_at_def)
  have N4: "?N4 j = point_group (?c j) (pd ! j)" for j
    by (simp add: point_group_def dot_rest_def)
  show ?thesis
    unfolding add_points_def
    by (simp only: prod.case Let_def s0 e1 e2 e3 e4 e5 N4)
qed

subsection \<open>The colour scale\<close>

lemma index_of_None: "index_of x xs = None \<longleftrightarrow> x \<notin> set xs"
  by (induction xs) auto

lemma index_of_append: "x \<in> set xs \<Longrightarrow> index_of x (xs @ ys) = index_of x xs"
  by (induction xs) auto

lemma index_of_snoc_new: "x \<notin> set xs \<Longrightarrow> index_of x (xs @ [x]) = Some (length xs)"
  by (induction xs) auto

lemma colorScale_snd: "snd (colorScale dm x) = (if x \<in> set dm then dm else dm @ [x])"
  using index_of_None [of x dm] by (auto simp: colorScale_def split: option.splits)

lemma colour_extend: "x \<in> set dm \<Longrightarrow> colour (dm @ ys) x = colour dm x"
  using index_of_None [of x dm]
  by (auto simp: colour_def colorScale_def index_of_append split: option.splits)

lemma colour_after: "colour (snd (colorScale dm x)) x = colour dm x"
  using index_of_None [of x dm]
  by (auto simp: colorScale_snd colour_def colorScale_def index_of_snoc_new split: option.splits)

lemma domain_after_append:
  "domain_after dm (xs @ ys) = domain_after (domain_after dm xs) ys"
  by (simp add: domain_after_def)

lemma domain_after_Cons:
  "domain_after dm (x # xs) = domain_after (snd (colorScale dm x)) xs"
  by (simp add: domain_after_def)

lemma domain_after_extends: "\<exists>ys. domain_after dm xs = dm @ ys"
proof (induction xs arbitrary: dm)
  case Nil
  show ?case by (simp add: domain_after_def)
next
  case (Cons x xs)
  from Cons [of "snd (colorScale dm x)"] show ?case
    by (auto simp: domain_after_Cons colorScale_snd)
qed

lemma set_domain_after: "set (domain_after dm xs) = set dm \<union> set xs"
  by (induction xs arbitrary: dm) (auto simp: domain_after_Cons colorScale_snd domain_after_def)

lemma domain_after_idem: "set xs \<subseteq> set dm \<Longrightarrow> domain_after dm xs = dm"
  by (induction xs) (auto simp: domain_after_Cons colorScale_snd domain_after_def)

lemma colour_stable:
  assumes "j < length xs"
  shows "colour (domain_after dm (take j xs)) (xs ! j) = colour (domain_after dm xs) (xs ! j)"
proof -
  let ?dj = "domain_after dm (take j xs)"
  let ?x = "xs ! j"
  have xs: "xs = take j xs @ ?x # drop (Suc j) xs"
    using assms by (simp add: id_take_nth_drop)
  have "domain_after dm xs = domain_after (snd (colorScale ?dj ?x)) (drop (Suc j) xs)"
    by (subst xs) (simp add: domain_after_append domain_after_Cons)
  then obtain ys where ys: "domain_after dm xs = snd (colorScale ?dj ?x) @ ys"
    using domain_after_extends by metis
  have "?x \<in> set (snd (colorScale ?dj ?x))" by (simp add: colorScale_snd)
  then show ?thesis
    unfolding ys by (simp add: colour_extend colour_after)
qed

lemma colour_idem:
  assumes "j < length xs"
  shows "colour (domain_after (domain_after dm xs) (take j xs)) (xs ! j)
         = colour (domain_after dm xs) (xs ! j)"
proof -
  have "set (take j xs) \<subseteq> set (domain_after dm xs)"
    using set_take_subset [of j xs] by (auto simp: set_domain_after)
  then show ?thesis by (simp add: domain_after_idem)
qed

subsection \<open>The legend\<close>

lemma legend_valid [simp]:
  "valid (svg_path @ [length ks]) (wrap (ks @ [Node e items]))"
  by (simp add: valid_append)

lemma legend_kids [simp]:
  "kids_at (svg_path @ [length ks]) (wrap (ks @ [Node e items])) = items"
  by (simp add: kids_at_append)

lemma legend_kids_map [simp]:
  "kids_map (svg_path @ [length ks]) f (wrap (ks @ [Node e items]))
     = wrap (ks @ [Node e (f items)])"
  by (simp add: kids_map_append)

lemma add_legend_indexed:
  "add_legend svg_path pd (wrap ks, dm)
     = (wrap (ks @ [Node legend_elem
                  (map (\<lambda>j. legend_row
                     (colour (domain_after dm (map name (take j pd))) (name (pd ! j))) j (pd ! j))
                     [0..<length pd])]),
        domain_after dm (map name pd))"
proof -
  let ?n = "length pd"
  let ?lp = "svg_path @ [length ks]"
  let ?L = "\<lambda>items. wrap (ks @ [Node legend_elem items])"
  let ?it = "\<lambda>j. (legend_item j (pd ! j))\<lparr>datum := Some (pd ! j)\<rparr>"
  let ?rect = "\<lambda>d. Node ((legend_rect d)\<lparr>datum := Some d\<rparr>) []"
  let ?text = "\<lambda>d. Node ((legend_text d)\<lparr>datum := Some d\<rparr>) []"
  let ?c = "\<lambda>j. colour (domain_after dm (map name (take j pd))) (name (pd ! j))"
  let ?M0 = "\<lambda>j. Node (?it j) []"
  let ?M1 = "\<lambda>j. Node (?it j) [?rect (pd ! j)]"
  let ?M2 = "\<lambda>j. Node (?it j) [set_style ''fill'' (Str (?c j)) (?rect (pd ! j))]"
  let ?M3 = "\<lambda>j. Node (?it j) [set_style ''fill'' (Str (?c j)) (?rect (pd ! j)), ?text (pd ! j)]"
  let ?P = "map (\<lambda>j. ?lp @ [j]) [0..<?n]"
  let ?R = "map (\<lambda>j. ?lp @ [j, 0]) [0..<?n]"
  have e0: "append_at svg_path
              (Node (element ''g'' [(''transform'', translate (width + 20) 20)] []) []) (wrap ks)
            = (?L [], ?lp)"
    by (simp add: legend_elem_def)
  have s0: "length (select_all ?lp ''legend-item'' (?L [])) = 0"
    by (simp add: select_all_def)
  have e1: "enter_append ?lp 0 pd legend_item (?L []) = (?L (map ?M0 [0..<?n]), ?P)"
    by (subst enter_append_line [where pre = "[]" and mid' = "map ?M0 [0..<?n]" and qs = ?P])
       simp_all
  have e2: "sel_append ?P legend_rect (?L (map ?M0 [0..<?n]))
            = (?L (map ?M1 [0..<?n]), ?R)"
    by (subst sel_append_line [where p = ?lp and pre = "[]" and mid = "map ?M0 [0..<?n]"
          and post = "[]" and mid' = "map ?M1 [0..<?n]" and qs = ?R])
       simp_all
  have e3: "sel_fill ?R (?L (map ?M1 [0..<?n]), dm)
            = (?L (map ?M2 [0..<?n]), domain_after dm (map name pd))"
    by (subst sel_fill_line [where p = ?lp and pre = "[]" and mid = "map ?M1 [0..<?n]"
          and post = "[]" and mid' = "map ?M2 [0..<?n]" and r = "[0]"])
       (simp_all add: target_datum_def node_at_def node_modify_def modify_at_def)
  have e4: "sel_append ?P legend_text (?L (map ?M2 [0..<?n]))
            = (?L (map ?M3 [0..<?n]), map (\<lambda>j. ?lp @ [j, 1]) [0..<?n])"
    by (subst sel_append_line [where p = ?lp and pre = "[]" and mid = "map ?M2 [0..<?n]"
          and post = "[]" and mid' = "map ?M3 [0..<?n]"
          and qs = "map (\<lambda>j. ?lp @ [j, 1]) [0..<?n]"])
       simp_all
  have M3: "?M3 j = legend_row (?c j) j (pd ! j)" for j
    by (simp add: legend_row_def)
  show ?thesis
    unfolding add_legend_def
    by (simp only: prod.case Let_def e0 s0 e1 e2 e3 e4 M3)
qed

subsection \<open>The drawing in closed form\<close>

lemma furniture_no_dot: "matching (has_class ''dot'') 0 (furniture []) = []"
  by (simp add: furniture_def has_class_def element_def is_space_def)

lemma points_by_index:
  "map (\<lambda>j. point_group (colour (domain_after dm (map name (take j pd))) (name (pd ! j))) (pd ! j))
     [0..<length pd]
   = chart_points (domain_after dm (map name pd)) pd"
proof -
  have "colour (domain_after dm (map name (take j pd))) (name (pd ! j))
        = colour (domain_after dm (map name pd)) (name (pd ! j))" if "j < length pd" for j
    using colour_stable [of j "map name pd" dm] that by (simp add: take_map)
  then show ?thesis
    unfolding chart_points_def
    by (intro nth_equalityI) simp_all
qed

lemma legend_by_index:
  assumes "D = domain_after dm (map name pd)"
  shows "map (\<lambda>j. legend_row (colour (domain_after D (map name (take j pd))) (name (pd ! j)))
                 j (pd ! j)) [0..<length pd]
         = chart_legend D pd"
proof -
  have "colour (domain_after D (map name (take j pd))) (name (pd ! j))
        = colour D (name (pd ! j))" if "j < length pd" for j
    using colour_idem [of j "map name pd" dm] that by (simp add: take_map assms)
  then show ?thesis
    unfolding chart_legend_def
    by (intro nth_equalityI) (simp_all add: nth_enumerate_eq)
qed

lemma add_title_closed:
  "add_title svg_path (wrap ks) = wrap (ks @ [Node title_text [], Node subtitle_text []])"
  by (simp add: add_title_def)

lemma draw_closed:
  "draw d current
     = (chart_tree (processedData d) []
          (chart_points (domain_after [] (map name (processedData d))) (processedData d)),
        \<lparr>cl_processedData = processedData d, cl_lineGroup = svg_path @ [5],
         cl_colorScale = domain_after [] (map name (processedData d))\<rparr>)"
proof -
  let ?pd = "processedData d"
  let ?D = "domain_after [] (map name ?pd)"
  have DD: "domain_after ?D (map name ?pd) = ?D"
    by (rule domain_after_idem) (simp add: set_domain_after)
  have p: "add_points svg_path ?pd (wrap (furniture []), [])
           = (wrap (furniture [] @ chart_points ?D ?pd), ?D)"
    by (simp only: add_points_indexed [OF furniture_no_dot] points_by_index)
  have l: "add_legend svg_path ?pd (wrap (furniture [] @ chart_points ?D ?pd), ?D)
           = (wrap ((furniture [] @ chart_points ?D ?pd)
                    @ [Node legend_elem (chart_legend ?D ?pd)]), ?D)"
    by (simp only: add_legend_indexed legend_by_index [OF refl] DD)
  show ?thesis
    unfolding draw_def
    by (simp only: Let_def remove_all_True create_svg_closed prod.case frame_closed p l
          add_title_closed chart_tree_def append_assoc append.simps)
qed

subsection \<open>Entering a dot\<close>

lemma lg_valid [simp]: "valid lg_path (wrap (furniture l @ X))"
  by (simp add: lg_path_def valid_append furniture_def)

lemma lg_kids [simp]: "kids_at lg_path (wrap (furniture l @ X)) = l"
  by (simp add: lg_path_def kids_at_append furniture_def)

lemma lg_kids_map [simp]:
  "kids_map lg_path f (wrap (furniture l @ X)) = wrap (furniture (f l) @ X)"
  by (simp add: lg_path_def kids_map_append furniture_def)

lemma dot_node_at:
  "i < length pts \<Longrightarrow>
   node_at (dot_path i) (wrap (furniture l @ pts @ rest)) = node_at [1] (node_kids (pts ! i))"
  using node_at_sibling [of svg_path "6 + i" "[1]" "wrap (furniture l @ pts @ rest)"]
  by (simp add: dot_path_def nth_append)

lemma dot_modify_at:
  "i < length pts \<Longrightarrow>
   modify_at (dot_path i) f (wrap (furniture l @ pts @ rest))
     = wrap (furniture l @ pts[i := node_modify [1] f (pts ! i)] @ rest)"
  using modify_at_sibling [of svg_path "6 + i" "[1]" f "wrap (furniture l @ pts @ rest)"]
  by (simp add: dot_path_def upd_nth_def nth_append list_update_append)

lemma join_empty:
  assumes "X = pts @ rest"
  shows "join lg_path ''connection-line'' ds ''line'' (wrap (furniture [] @ X))
       = (wrap (furniture (map (\<lambda>d. Node ((element ''line'' [] [])\<lparr>datum := Some d\<rparr>) []) ds) @ X),
          map (\<lambda>j. lg_path @ [j]) [0..<length ds])"
proof -
  let ?t = "wrap (furniture [] @ X)"
  let ?ln = "\<lambda>d. Node ((element ''line'' [] [])\<lparr>datum := Some d\<rparr>) []"
  have s: "select_all lg_path ''connection-line'' ?t = []"
    by (simp add: select_all_def)
  have e: "enter_append lg_path 0 ds (\<lambda>i d. element ''line'' [] []) ?t
           = (wrap (furniture (map ?ln ds) @ X), map (\<lambda>j. lg_path @ [j]) [0..<length ds])"
    by (subst enter_append_line [where pre = "[]" and mid' = "map ?ln ds"
          and qs = "map (\<lambda>j. lg_path @ [j]) [0..<length ds]"]) simp_all
  show ?thesis
    unfolding join_def
    by (simp add: Let_def s e)
qed

lemma chart_tree_alt: "chart_tree pd lines pts = wrap (furniture lines @ pts @ chart_rest pd)"
  by (simp add: chart_tree_def chart_rest_def)

lemma colorScale_known:
  "x \<in> set dm \<Longrightarrow> colorScale dm x = (colour dm x, dm)"
  using colorScale_snd [of dm x] by (simp add: colour_def prod_eq_iff)

lemma page_hover_alt:
  "(let (pg1, tooltip) =
            (case select_tag ''body'' pg of
               None \<Rightarrow> (pg, None)
             | Some body \<Rightarrow>
                 (let (pg', t) = append_at body
                        (Node (element ''div'' [(''class'', Str tooltip_class)] []) []) pg
                  in (pg', Some t)))
    in F (case tooltip of
                   None \<Rightarrow> pg1
                 | Some t \<Rightarrow>
                     modify_at t
                       (\<lambda>n. set_style ''opacity'' (Num 1)
                              (set_style ''top'' (px (minus64 (pageY event) 10))
                                (set_style ''left'' (px (plus64 (pageX event) 10))
                                  (set_content (tooltip_html d) n))))
                       pg1))
   = F (page_hover event d pg)"
  by (simp add: page_hover_def append_at_def tooltip_node_def tooltip_fill_def [abs_def]
           split: option.splits)

lemma on_mouseover_closed:
  assumes i: "i < length pd" and pts: "length pts = length pd"
    and D: "name (pd ! i) \<in> set D"
  shows "on_mouseover event (dot_path i) (pd ! i)
           \<lparr>cl_processedData = pd, cl_lineGroup = lg_path, cl_colorScale = D\<rparr>
           (chart_tree pd [] pts) s
       = s\<lparr>page := page_hover event (pd ! i) (page s),
            chartRef := Some (chart_tree pd (hover_lines pd (pd ! i) (colour D (name (pd ! i))))
                                (pts[i := hovered (pd ! i) (pts ! i)])),
            env := Some \<lparr>cl_processedData = pd, cl_lineGroup = lg_path, cl_colorScale = D\<rparr>\<rparr>"
proof -
  let ?d = "pd ! i"
  let ?pts = "pts[i := hovered ?d (pts ! i)]"
  let ?ds = "filter (\<lambda>item. oid item \<noteq> oid ?d) pd"
  let ?ln = "\<lambda>d. Node ((element ''line'' [] [])\<lparr>datum := Some d\<rparr>) []"
  let ?cx = "calculatePosition (strength ?d) xScale"
  let ?cy = "calculatePosition (strength ?d) yScale"
  let ?st = "colour D (name ?d)"
  have c1: "modify_at (dot_path i) f (chart_tree pd [] pts)
            = chart_tree pd [] (pts[i := node_modify [1] f (pts ! i)])" for f
    using i pts by (simp add: chart_tree_alt dot_modify_at)
  have c2: "join lg_path ''connection-line'' ?ds ''line'' (chart_tree pd [] ps)
            = (chart_tree pd (map ?ln ?ds) ps, map (\<lambda>j. lg_path @ [j]) [0..<length ?ds])" for ps
    unfolding chart_tree_alt by (rule join_empty) (rule refl)
  have c3: "sel_modify (map (\<lambda>j. lg_path @ [j]) [0..<length ?ds]) (connection_line ?cx ?cy ?st)
              (chart_tree pd (map ?ln ?ds) ps)
            = chart_tree pd (hover_lines pd ?d ?st) ps" for ps
    unfolding chart_tree_alt
    by (subst sel_modify_line [where p = lg_path and pre = "[]" and mid = "map ?ln ?ds"
          and post = "[]" and r = "[]" and mid' = "hover_lines pd ?d ?st"])
       (simp_all add: hover_lines_def line_node_def node_modify_def connection_line_def)
  show ?thesis
    unfolding on_mouseover_def
    by (subst page_hover_alt)
       (simp add: Let_def c1 c2 c3 colorScale_known [OF D] hovered_def)
qed

subsection \<open>Removing elements\<close>

lemma remove_all_Cons: "remove_all P (n # ns) = remove_all P [n] @ remove_all P ns"
  by (cases n) auto

lemma remove_all_append: "remove_all P (xs @ ys) = remove_all P xs @ remove_all P ys"
proof (induction xs)
  case Nil
  show ?case by simp
next
  case (Cons x xs)
  show ?case
    using remove_all_Cons [of P x "xs @ ys"] remove_all_Cons [of P x xs] Cons by simp
qed

lemma remove_all_hit: "P n \<Longrightarrow> remove_all P [n] = []"
  by (cases n) auto

lemma remove_all_map_hit: "(\<And>x. P (f x)) \<Longrightarrow> remove_all P (map f xs) = []"
proof (induction xs)
  case Nil
  show ?case by simp
next
  case (Cons x xs)
  then show ?case
    using remove_all_Cons [of P "f x" "map f xs"] by (simp add: remove_all_hit)
qed

lemma remove_all_map_keep:
  "(\<And>x. remove_all P [f x] = [f x]) \<Longrightarrow> remove_all P (map f xs) = map f xs"
proof (induction xs)
  case Nil
  show ?case by simp
next
  case (Cons x xs)
  then show ?case
    using remove_all_Cons [of P "f x" "map f xs"] by simp
qed

text \<open>A predicate that looks at the element only, not at its children.\<close>

lemma shallow_has_class: "shallow (has_class c)"
  by (simp add: shallow_def has_class_def)

lemma matching_remove_all: "shallow P \<Longrightarrow> matching P i (remove_all P ns) = []"
proof (induction P ns arbitrary: i rule: remove_all.induct)
  case (1 P)
  show ?case by simp
next
  case (2 P ns)
  then show ?case by simp
next
  case (3 P e ks ns)
  have "P (Node e (remove_all P ks)) = P (Node e ks)"
    using "3.prems" unfolding shallow_def by blast
  with 3 show ?case by simp
qed

lemma remove_all_update:
  assumes "i < length ns" "remove_all P [n] = remove_all P [ns ! i]"
  shows "remove_all P (ns[i := n]) = remove_all P ns"
proof -
  have "ns = take i ns @ ns ! i # drop (Suc i) ns"
    using assms(1) by (simp add: id_take_nth_drop)
  moreover have "ns[i := n] = take i ns @ n # drop (Suc i) ns"
    using assms(1) by (simp add: upd_conv_take_nth_drop)
  ultimately show ?thesis
    using remove_all_Cons [of P n "drop (Suc i) ns"]
      remove_all_Cons [of P "ns ! i" "drop (Suc i) ns"] assms(2)
    by (metis remove_all_append)
qed

lemma remove_all_kids_map:
  assumes "shallow P" "\<And>cs. remove_all P (f cs) = remove_all P cs"
  shows "remove_all P (kids_map p f ns) = remove_all P ns"
proof (induction p arbitrary: ns)
  case Nil
  show ?case by (simp add: assms(2))
next
  case (Cons i p)
  show ?case
  proof (cases "i < length ns")
    case False
    then show ?thesis by simp
  next
    case True
    show ?thesis
    proof (cases "ns ! i")
      case Container
      then show ?thesis using True by simp
    next
      case (Node e cs)
      have "P (Node e (kids_map p f cs)) = P (Node e cs)"
        using assms(1) by (simp add: shallow_def)
      then have "remove_all P [Node e (kids_map p f cs)] = remove_all P [ns ! i]"
        using Cons [of cs] Node by simp
      then show ?thesis
        using True Node by (simp add: remove_all_update)
    qed
  qed
qed

lemma remove_all_page_hover:
  "remove_all (has_class ''absolute'') (page_hover event d pg)
     = remove_all (has_class ''absolute'') pg"
proof (cases "select_tag ''body'' pg")
  case None
  then show ?thesis by (simp add: page_hover_def)
next
  case (Some b)
  let ?P = "has_class ''absolute''"
  let ?k = "length (kids_at b pg)"
  have t: "?P tooltip_node"
    by (simp add: tooltip_node_def has_class_def element_def tooltip_class_def is_space_def)
  have t': "?P (tooltip_fill event d tooltip_node)"
    by (simp add: tooltip_fill_def tooltip_node_def has_class_def element_def tooltip_class_def
          is_space_def)
  have "modify_at (b @ [?k]) (tooltip_fill event d) (kids_map b (\<lambda>cs. cs @ [tooltip_node]) pg)
        = kids_map b (\<lambda>cs. upd_nth ?k (tooltip_fill event d) (cs @ [tooltip_node])) pg"
    using modify_at_sibling [of b ?k "[]"] by (simp add: kids_map_comp node_modify_def [abs_def])
  also have "\<dots> = kids_map b (\<lambda>cs. cs @ [tooltip_fill event d tooltip_node]) pg"
    by (rule kids_map_cong_at) (simp add: upd_nth_def)
  finally have "page_hover event d pg
                = kids_map b (\<lambda>cs. cs @ [tooltip_fill event d tooltip_node]) pg"
    by (simp add: page_hover_def Some)
  then show ?thesis
    by (simp add: remove_all_kids_map [OF shallow_has_class] remove_all_append
          remove_all_hit [of ?P, OF t'])
qed

subsection \<open>The effect and the handlers in closed form\<close>

lemma length_processedData [simp]: "length (processedData d) = length d"
  by (simp add: processedData_def)

lemma nth_processedData:
  "i < length d \<Longrightarrow>
   processedData d ! i
     = \<lparr>oid = i, name = fst (d ! i), strength = Strength (snd (d ! i)), details = snd (d ! i)\<rparr>"
  by (simp add: processedData_def nth_enumerate_eq split_beta)

lemma useEffect_closed:
  "chartRef s = Some cur \<Longrightarrow>
   useEffect (Some d) s = s\<lparr>chartRef := Some (rendered_chart d), env := Some (rendered_env d)\<rparr>"
  by (simp add: useEffect_def draw_closed rendered_chart_def rendered_env_def lg_path_def)

lemma length_chart_points [simp]: "length (chart_points D pd) = length pd"
  by (simp add: chart_points_def)

lemma dot_node:
  "dot_rest j (set_style ''fill'' (Str c) (Node ((dot_circle d)\<lparr>datum := Some d\<rparr>) []))
     = Node (dot_elem c d) []"
  by (simp add: dot_rest_def dot_elem_def dot_circle_def element_def)

lemma point_group_alt:
  "point_group c d =
     Node ((element ''g'' [(''class'', Str ''point-group'')] [])\<lparr>datum := Some d\<rparr>)
       [Node ((glow_circle d)\<lparr>datum := Some d\<rparr>) [], Node (dot_elem c d) []]"
  unfolding point_group_def dot_node ..

lemma rendered_dot:
  assumes "i < length pd"
  shows "node_at (dot_path i) (chart_tree pd lines (chart_points D pd))
       = Some (Node (dot_elem (colour D (name (pd ! i))) (pd ! i)) [])"
  unfolding chart_tree_alt
  by (subst dot_node_at)
     (simp_all add: assms chart_points_def point_group_alt node_at_def)

lemma mouseover_rendered:
  assumes "i < length d" "chartRef s = Some cur"
  shows "mouseover event (dot_path i) (useEffect (Some d) s)
       = s\<lparr>page := page_hover event (processedData d ! i) (page s),
            chartRef := Some (hovered_chart d i), env := Some (rendered_env d)\<rparr>"
proof -
  let ?pd = "processedData d"
  let ?D = "domain_after [] (map name ?pd)"
  have i: "i < length ?pd" using assms(1) by simp
  have D: "name (?pd ! i) \<in> set ?D"
    using i by (simp add: set_domain_after)
  have dot: "node_at (dot_path i) (rendered_chart d)
             = Some (Node (dot_elem (colour ?D (name (?pd ! i))) (?pd ! i)) [])"
    unfolding rendered_chart_def by (rule rendered_dot [OF i])
  have h: "on_mouseover event (dot_path i) (?pd ! i) (rendered_env d) (rendered_chart d) s'
           = s'\<lparr>page := page_hover event (?pd ! i) (page s'),
                 chartRef := Some (hovered_chart d i), env := Some (rendered_env d)\<rparr>" for s'
    unfolding rendered_env_def rendered_chart_def hovered_chart_def Let_def
    by (rule on_mouseover_closed [OF i _ D]) simp
  show ?thesis
    unfolding useEffect_closed [OF assms(2)]
    by (simp add: mouseover_def dot h dot_elem_def)
qed

lemmas class_eval = has_class_def element_def is_space_def

lemma point_group_keep:
  "remove_all (has_class ''absolute'') [point_group c d] = [point_group c d]"
  by (simp add: point_group_alt dot_elem_def glow_circle_def dot_circle_def class_eval)

lemma legend_row_keep:
  "remove_all (has_class ''absolute'') [legend_row c i d] = [legend_row c i d]"
  by (simp add: legend_row_def legend_item_def legend_rect_def legend_text_def class_eval)

lemma furniture_keep:
  "remove_all (has_class ''absolute'') (furniture []) = furniture []"
  by (simp add: furniture_def class_eval)

lemma chart_rest_keep:
  "remove_all (has_class ''absolute'') (chart_rest pd) = chart_rest pd"
proof -
  have "remove_all (has_class ''absolute'') (chart_legend D pd) = chart_legend D pd" for D
    unfolding chart_legend_def
    by (rule remove_all_map_keep) (simp add: split_beta legend_row_keep)
  then show ?thesis
    by (simp add: chart_rest_def legend_elem_def title_text_def subtitle_text_def class_eval)
qed

lemma chart_keep:
  "remove_all (has_class ''absolute'') (chart_tree pd [] (chart_points D pd))
     = chart_tree pd [] (chart_points D pd)"
proof -
  have "remove_all (has_class ''absolute'') (chart_points D pd) = chart_points D pd"
    unfolding chart_points_def by (rule remove_all_map_keep) (rule point_group_keep)
  then show ?thesis
    by (simp add: chart_tree_alt wrap_def remove_all_append furniture_keep chart_rest_keep
          svg_elem_def g_elem_def class_eval)
qed

lemma hover_lines_removed:
  "remove_all (has_class ''connection-line'') (hover_lines pd d c) = []"
  unfolding hover_lines_def
  by (rule remove_all_map_hit) (simp add: line_node_def connection_line_def class_eval)

lemma restore_hovered:
  "node_modify [Suc 0] restore_size (hovered d (point_group c d)) = point_group c d"
  by (simp add: hovered_def point_group_alt node_modify_def modify_at_def restore_size_def
        dot_elem_def dot_circle_def element_def)

lemma nth_chart_points:
  "i < length pd \<Longrightarrow> chart_points D pd ! i = point_group (colour D (name (pd ! i))) (pd ! i)"
  by (simp add: chart_points_def)

lemma hovered_dot:
  assumes "i < length d"
  shows "\<exists>e. node_at (dot_path i) (hovered_chart d i) = Some (Node e []) \<and> listens e"
proof -
  let ?pd = "processedData d"
  have i: "i < length ?pd" using assms by simp
  show ?thesis
    unfolding hovered_chart_def Let_def chart_tree_alt
    by (subst dot_node_at)
       (simp_all add: i assms nth_chart_points hovered_def point_group_alt node_modify_def
          modify_at_def node_at_def dot_elem_def)
qed

lemma mouseout_hovered:
  assumes "i < length d" "chartRef s = Some cur"
  shows "mouseout (dot_path i) (mouseover event (dot_path i) (useEffect (Some d) s))
       = s\<lparr>page := remove_all (has_class ''absolute'') (page s),
            chartRef := Some (rendered_chart d), env := Some (rendered_env d)\<rparr>"
proof -
  let ?pd = "processedData d"
  let ?D = "domain_after [] (map name ?pd)"
  let ?pts = "chart_points ?D ?pd"
  let ?h = "s\<lparr>page := page_hover event (?pd ! i) (page s),
              chartRef := Some (hovered_chart d i), env := Some (rendered_env d)\<rparr>"
  have i: "i < length ?pd" using assms(1) by simp
  obtain e where e: "node_at (dot_path i) (hovered_chart d i) = Some (Node e [])" "listens e"
    using hovered_dot [OF assms(1)] by blast
  have c1: "modify_at (dot_path i) restore_size (hovered_chart d i)
            = chart_tree ?pd (hover_lines ?pd (?pd ! i) (colour ?D (name (?pd ! i)))) ?pts"
    unfolding hovered_chart_def Let_def chart_tree_alt
    by (subst dot_modify_at)
       (simp_all add: i assms(1) nth_chart_points restore_hovered list_update_same)
  have c2: "kids_map lg_path (remove_all (has_class ''connection-line''))
              (chart_tree ?pd (hover_lines ?pd x c) ?pts) = rendered_chart d" for x c
    by (simp add: chart_tree_alt hover_lines_removed rendered_chart_def)
  have c3: "remove_all (has_class ''absolute'') (rendered_chart d) = rendered_chart d"
    unfolding rendered_chart_def by (rule chart_keep)
  have "mouseout (dot_path i) ?h = on_mouseout (dot_path i) (rendered_env d) (hovered_chart d i) ?h"
    by (simp add: mouseout_def e)
  also have "\<dots> = s\<lparr>page := remove_all (has_class ''absolute'') (page s),
            chartRef := Some (rendered_chart d), env := Some (rendered_env d)\<rparr>"
    by (simp add: on_mouseout_def Let_def c1 rendered_env_def c2 c3 remove_all_page_hover)
  finally show ?thesis
    unfolding mouseover_rendered [OF assms] .
qed

subsection \<open>Selections on the drawn chart\<close>

lemma matching_Cons: "matching P i (n # ns) = matching P i [n] @ matching P (Suc i) ns"
  by (cases n) auto

lemma matching_append:
  "matching P i (xs @ ys) = matching P i xs @ matching P (i + length xs) ys"
proof (induction xs arbitrary: i)
  case Nil
  show ?case by simp
next
  case (Cons x xs)
  show ?case
    using matching_Cons [of P i x "xs @ ys"] matching_Cons [of P i x xs] Cons [of "Suc i"]
    by simp
qed

lemma matching_map_one:
  assumes "\<And>x k. matching P k [f x] = [k # r]"
  shows "matching P i (map f xs) = map (\<lambda>j. (i + j) # r) [0..<length xs]"
proof (induction xs arbitrary: i)
  case Nil
  show ?case by simp
next
  case (Cons x xs)
  have "map (\<lambda>j. (i + j) # r) [0..<Suc (length xs)]
        = (i # r) # map (\<lambda>j. (Suc i + j) # r) [0..<length xs]"
    by (simp add: map_upt_Suc del: upt_Suc)
  then show ?case
    using matching_Cons [of P i "f x" "map f xs"] Cons [of "Suc i"] assms
    by (simp del: upt_Suc)
qed

lemma matching_map_none:
  assumes "\<And>x k. matching P k [f x] = []"
  shows "matching P i (map f xs) = []"
proof (induction xs arbitrary: i)
  case Nil
  show ?case by simp
next
  case (Cons x xs)
  then show ?case
    using matching_Cons [of P i "f x" "map f xs"] assms by simp
qed

lemma select_all_root: "select_all [] c t = matching (has_class c) 0 t"
proof -
  have "(@) ([] :: path) = (\<lambda>q. q)" by (rule ext) simp
  then show ?thesis by (simp add: select_all_def)
qed

lemma matching_wrap:
  "matching (has_class c) 0 (wrap ks) = map (\<lambda>q. 0 # 0 # q) (matching (has_class c) 0 ks)"
  by (simp add: wrap_def svg_elem_def g_elem_def class_eval)

lemma matching_furniture:
  "matching (has_class c) 0 (furniture lines)
     = (if c = ''grid'' then [[1], [2]] else if c = ''axis'' then [[3], [4]]
        else if c = ''connections'' then [[5]] else [])
       @ map ((#) 5) (matching (has_class c) 0 lines)"
  by (simp add: furniture_def class_eval)

lemma matching_line:
  "matching (has_class c) k [line_node cx cy st item]
     = (if c = ''connection-line'' then [[k]] else [])"
  by (simp add: line_node_def connection_line_def class_eval)

lemma matching_point_group:
  "matching (has_class c) k [point_group col d]
     = (if c = ''point-group'' then [[k]] else if c = ''dot-glow'' then [[k, 0]]
        else if c = ''dot'' then [[k, 1]] else [])"
  by (simp add: point_group_alt dot_elem_def glow_circle_def dot_circle_def class_eval)

lemma matching_hovered:
  "matching (has_class c) k [hovered d' (point_group col d)]
     = matching (has_class c) k [point_group col d]"
  by (simp add: hovered_def node_modify_def modify_at_def point_group_alt dot_elem_def
        glow_circle_def dot_circle_def class_eval)

lemma matching_legend_row:
  "matching (has_class c) k [legend_row col i d]
     = (if c = ''legend-item'' then [[k]] else [])"
  by (simp add: legend_row_def legend_item_def legend_rect_def legend_text_def class_eval)

lemma matching_chart_rest:
  "matching (has_class c) k (chart_rest pd)
     = (if c = ''legend-item'' then map (\<lambda>j. [k, j]) [0..<length pd] else [])"
proof -
  have "matching (has_class ''legend-item'') 0 (chart_legend D pd)
        = map (\<lambda>j. [0 + j]) [0..<length (enumerate 0 pd)]" for D
    unfolding chart_legend_def
    by (rule matching_map_one) (simp add: split_beta matching_legend_row)
  moreover have "c \<noteq> ''legend-item'' \<Longrightarrow> matching (has_class c) 0 (chart_legend D pd) = []" for D
    unfolding chart_legend_def
    by (rule matching_map_none) (simp add: split_beta matching_legend_row)
  ultimately show ?thesis
    by (simp add: chart_rest_def legend_elem_def title_text_def subtitle_text_def class_eval
          comp_def)
qed

lemma matching_update:
  assumes "i < length ns" "\<And>k. matching P k [n] = matching P k [ns ! i]"
  shows "matching P k (ns[i := n]) = matching P k ns"
proof -
  have a: "ns = take i ns @ ns ! i # drop (Suc i) ns"
    using assms(1) by (simp add: id_take_nth_drop)
  have b: "ns[i := n] = take i ns @ n # drop (Suc i) ns"
    using assms(1) by (simp add: upd_conv_take_nth_drop)
  have "matching P k (take i ns @ n # drop (Suc i) ns)
        = matching P k (take i ns @ ns ! i # drop (Suc i) ns)"
    using matching_Cons [of P _ n "drop (Suc i) ns"]
      matching_Cons [of P _ "ns ! i" "drop (Suc i) ns"] assms(2)
    by (simp add: matching_append)
  then show ?thesis using a b by simp
qed

lemma matching_chart:
  "matching (has_class c) 0 (chart_tree pd lines pts)
     = map (\<lambda>q. 0 # 0 # q)
         (matching (has_class c) 0 (furniture lines) @ matching (has_class c) 6 pts
          @ matching (has_class c) (6 + length pts) (chart_rest pd))"
  by (simp add: chart_tree_alt matching_wrap matching_append)

lemma matching_chart_points:
  "matching (has_class c) k (chart_points D pd)
     = (if c = ''point-group'' then map (\<lambda>j. [k + j]) [0..<length pd]
        else if c = ''dot-glow'' then map (\<lambda>j. [k + j, 0]) [0..<length pd]
        else if c = ''dot'' then map (\<lambda>j. [k + j, 1]) [0..<length pd] else [])"
proof -
  let ?f = "\<lambda>d. point_group (colour D (name d)) d"
  have 1: "matching (has_class ''point-group'') k (map ?f pd) = map (\<lambda>j. (k + j) # []) [0..<length pd]"
    by (rule matching_map_one) (simp add: matching_point_group)
  have 2: "matching (has_class ''dot-glow'') k (map ?f pd) = map (\<lambda>j. (k + j) # [0]) [0..<length pd]"
    by (rule matching_map_one) (simp add: matching_point_group)
  have 3: "matching (has_class ''dot'') k (map ?f pd) = map (\<lambda>j. (k + j) # [1]) [0..<length pd]"
    by (rule matching_map_one) (simp add: matching_point_group)
  have 4: "c \<noteq> ''point-group'' \<Longrightarrow> c \<noteq> ''dot-glow'' \<Longrightarrow> c \<noteq> ''dot'' \<Longrightarrow>
           matching (has_class c) k (map ?f pd) = []"
    by (rule matching_map_none) (simp add: matching_point_group)
  show ?thesis
    using 1 2 3 4 by (simp add: chart_points_def)
qed

lemma filter_others:
  "filter (\<lambda>item. oid item \<noteq> i) (processedData d)
     = take i (processedData d) @ drop (Suc i) (processedData d)"
proof -
  have "filter (\<lambda>x. fst x \<noteq> i) (enumerate 0 xs) = take i (enumerate 0 xs) @ drop (Suc i) (enumerate 0 xs)"
    for xs :: "(string \<times> IdentityData) list"
  proof (induction xs arbitrary: i rule: rev_induct)
    case Nil
    show ?case by simp
  next
    case (snoc x xs)
    have e: "enumerate 0 (xs @ [x]) = enumerate 0 xs @ [(length xs, x)]"
      by (simp add: enumerate_append_eq)
    show ?case
      unfolding e using snoc [of i]
      by (cases "i < length xs") (auto simp: not_less)
  qed
  from this [of d] show ?thesis
    by (simp add: processedData_def filter_map comp_def split_beta take_map drop_map)
qed

subsection \<open>Reading the drawn and the hovered chart\<close>

lemma chart_of_useEffect:
  "chartRef s = Some cur \<Longrightarrow> chart_of (useEffect (Some d) s) = rendered_chart d"
  by (simp add: useEffect_closed chart_of_def)

lemma select_rendered:
  "select_all [] c (rendered_chart d)
     = (if c = ''grid'' then [[0, 0, 1], [0, 0, 2]]
        else if c = ''axis'' then [[0, 0, 3], [0, 0, 4]]
        else if c = ''connections'' then [[0, 0, 5]]
        else if c = ''point-group'' then map (\<lambda>j. [0, 0, 6 + j]) [0..<length d]
        else if c = ''dot-glow'' then map (\<lambda>j. [0, 0, 6 + j, 0]) [0..<length d]
        else if c = ''dot'' then map (\<lambda>j. [0, 0, 6 + j, 1]) [0..<length d]
        else if c = ''legend-item'' then map (\<lambda>j. [0, 0, 6 + length d, j]) [0..<length d]
        else [])"
  by (simp add: select_all_root rendered_chart_def matching_chart matching_furniture
        matching_chart_points matching_chart_rest comp_def)

lemma rendered_dots:
  "select_all [] ''dot'' (rendered_chart d) = map dot_path [0..<length d]"
  by (simp add: select_rendered dot_path_def svg_path_def)

lemma rendered_glows:
  "select_all [] ''dot-glow'' (rendered_chart d) = map glow_path [0..<length d]"
  by (simp add: select_rendered glow_path_def svg_path_def)

lemma point_node_at:
  "i < length pts \<Longrightarrow>
   node_at (svg_path @ (6 + i) # r) (wrap (furniture l @ pts @ rest)) = node_rel r (pts ! i)"
  using node_at_sibling [of svg_path "6 + i" r "wrap (furniture l @ pts @ rest)"]
  by (simp add: nth_append)

lemma rendered_glow:
  assumes "i < length pd"
  shows "node_at (glow_path i) (chart_tree pd lines (chart_points D pd))
       = Some (Node ((glow_circle (pd ! i))\<lparr>datum := Some (pd ! i)\<rparr>) [])"
  unfolding chart_tree_alt glow_path_def
  by (subst point_node_at)
     (simp_all add: assms chart_points_def point_group_alt node_at_def)

lemma cx_rendered:
  assumes "i < length d"
  shows "node_at (dot_path i) (rendered_chart d)
         = Some (Node (dot_elem (colour (domain_after [] (map name (processedData d)))
                                   (fst (d ! i))) (processedData d ! i)) [])"
  using rendered_dot [of i "processedData d"] assms
  by (simp add: rendered_chart_def nth_processedData)

lemma legend_node_at:
  assumes "j < length pd"
  shows "node_at (svg_path @ [6 + length pd, j, 0]) (chart_tree pd lines (chart_points D pd))
         = Some (set_style ''fill'' (Str (colour (domain_after [] (map name pd)) (name (pd ! j))))
                   (Node ((legend_rect (pd ! j))\<lparr>datum := Some (pd ! j)\<rparr>) []))"
proof -
  let ?t = "wrap (furniture lines @ chart_points D pd @ chart_rest pd)"
  have k: "kids_at svg_path ?t ! (6 + length pd)
           = Node legend_elem (chart_legend (domain_after [] (map name pd)) pd)"
    by (simp add: nth_append chart_rest_def)
  have "node_at (svg_path @ (6 + length pd) # [j, 0]) ?t
        = node_rel [j, 0] (kids_at svg_path ?t ! (6 + length pd))"
    by (subst node_at_sibling) (simp add: chart_rest_def)
  also have "\<dots> = node_at [j, 0] (chart_legend (domain_after [] (map name pd)) pd)"
    unfolding k by simp
  also have "\<dots> = Some (set_style ''fill'' (Str (colour (domain_after [] (map name pd)) (name (pd ! j))))
                   (Node ((legend_rect (pd ! j))\<lparr>datum := Some (pd ! j)\<rparr>) []))"
    using assms
    by (simp add: node_at_def chart_legend_def nth_enumerate_eq legend_row_def)
  finally show ?thesis by (simp add: chart_tree_alt)
qed

lemma collect_Cons: "collect f (n # ns) = collect f [n] @ collect f ns"
  by (cases n) auto

lemma collect_append: "collect f (xs @ ys) = collect f xs @ collect f ys"
proof (induction xs)
  case Nil
  show ?case by simp
next
  case (Cons x xs)
  show ?case
    using collect_Cons [of f x "xs @ ys"] collect_Cons [of f x xs] Cons by simp
qed

lemma collect_map:
  "(\<And>x. collect f [g x] = h x) \<Longrightarrow> collect f (map g xs) = concat (map h xs)"
proof (induction xs)
  case Nil
  show ?case by simp
next
  case (Cons x xs)
  then show ?case using collect_Cons [of f "g x" "map g xs"] by simp
qed

lemma collect_map_none:
  "(\<And>x. collect f [g x] = []) \<Longrightarrow> collect f (map g xs) = []"
  using collect_map [of f g "\<lambda>x. []" xs] by simp

lemma collect_axis_rendered:
  "collect axis (rendered_chart d) = [grid_x, grid_y, xAxis, yAxis]"
proof -
  have p: "collect axis (chart_points D pd) = []" for D pd
    unfolding chart_points_def
    by (rule collect_map_none)
       (simp add: point_group_alt dot_elem_def glow_circle_def dot_circle_def element_def)
  have l: "collect axis (chart_legend D pd) = []" for D pd
    unfolding chart_legend_def
    by (rule collect_map_none)
       (simp add: split_beta legend_row_def legend_item_def legend_rect_def legend_text_def
          element_def)
  show ?thesis
    by (simp add: rendered_chart_def chart_tree_alt wrap_def collect_append p l chart_rest_def
          furniture_def svg_elem_def g_elem_def legend_elem_def title_text_def
          subtitle_text_def element_def)
qed

lemma collect_content_rendered:
  "collect content (rendered_chart d)
     = map (\<lambda>kv. Str (fst kv)) d
       @ [Str ''Personal Identity Map'',
          Str ''Exploring the dimensions of self-identity and personal values'']"
proof -
  have p: "collect content (chart_points D pd) = []" for D pd
    unfolding chart_points_def
    by (rule collect_map_none)
       (simp add: point_group_alt dot_elem_def glow_circle_def dot_circle_def element_def)
  have l: "collect content (chart_legend D pd)
           = concat (map (\<lambda>x. [Str (name (snd x))]) (enumerate 0 pd))" for D pd
    unfolding chart_legend_def
    by (rule collect_map)
       (simp add: split_beta legend_row_def legend_item_def legend_rect_def legend_text_def
          element_def)
  have n: "map (\<lambda>x. Str (name (snd x))) (enumerate 0 (processedData d))
           = map (\<lambda>kv. Str (fst kv)) d"
    by (intro nth_equalityI) (simp_all add: nth_enumerate_eq nth_processedData)
  show ?thesis
    by (simp add: rendered_chart_def chart_tree_alt wrap_def collect_append p l n chart_rest_def
          furniture_def svg_elem_def g_elem_def legend_elem_def title_text_def
          subtitle_text_def element_def)
qed

lemma tags_rendered: "map node_tag (rendered_chart d) = [''svg'']"
  by (simp add: rendered_chart_def chart_tree_alt wrap_def svg_elem_def element_def)

lemma length_others: "i < length d \<Longrightarrow> length (others d i) = length d - 1"
  by (simp add: others_def)

lemma hovered_chart_alt:
  assumes "i < length d"
  shows "hovered_chart d i
       = (let pd = processedData d; D = domain_after [] (map name pd); pts = chart_points D pd
          in chart_tree pd
               (map (line_node (calculatePosition (Strength (snd (d ! i))) xScale)
                               (calculatePosition (Strength (snd (d ! i))) yScale)
                               (colour D (fst (d ! i))))
                  (others d i))
               (pts[i := hovered (pd ! i) (pts ! i)]))"
  using assms filter_others [of i d]
  by (simp add: hovered_chart_def Let_def hover_lines_def nth_processedData others_def)

lemma select_hovered:
  assumes "i < length d"
  shows "select_all [] c (hovered_chart d i)
     = (if c = ''connection-line'' then map (\<lambda>j. lg_path @ [j]) [0..<length d - 1]
        else select_all [] c (rendered_chart d))"
proof -
  let ?pd = "processedData d"
  let ?D = "domain_after [] (map name ?pd)"
  let ?pts = "chart_points ?D ?pd"
  have i: "i < length ?pts" using assms by simp
  have u: "matching (has_class c) k (?pts[i := hovered (?pd ! i) (?pts ! i)])
           = matching (has_class c) k ?pts" for k
    using i assms by (intro matching_update) (simp_all add: nth_chart_points matching_hovered)
  have l: "matching (has_class c) 0 (map (line_node cx cy st) xs)
           = (if c = ''connection-line'' then map (\<lambda>j. [j]) [0..<length xs] else [])" for cx cy st xs
  proof (cases "c = ''connection-line''")
    case True
    have "matching (has_class ''connection-line'') 0 (map (line_node cx cy st) xs)
          = map (\<lambda>j. (0 + j) # []) [0..<length xs]"
      by (rule matching_map_one) (simp add: matching_line)
    with True show ?thesis by simp
  next
    case False
    have "matching (has_class c) 0 (map (line_node cx cy st) xs) = []"
      by (rule matching_map_none) (simp add: matching_line False)
    with False show ?thesis by simp
  qed
  show ?thesis
    using assms
    by (simp add: hovered_chart_alt Let_def select_all_root rendered_chart_def matching_chart
          matching_furniture u l matching_chart_points matching_chart_rest comp_def
          length_others lg_path_def svg_path_def)
qed

lemma line_at_hovered:
  assumes "i < length d" "j < length d - 1"
  shows "node_at (lg_path @ [j]) (hovered_chart d i)
         = Some (line_node (calculatePosition (Strength (snd (d ! i))) xScale)
                           (calculatePosition (Strength (snd (d ! i))) yScale)
                           (colour (domain_after [] (map name (processedData d))) (fst (d ! i)))
                           (others d i ! j))"
  using assms
  by (simp add: hovered_chart_alt Let_def chart_tree_alt node_at_snoc length_others)

lemma dot_at_hovered:
  assumes "i < length d" "j < length d"
  shows "\<exists>r. node_at (dot_path j) (hovered_chart d i)
         = Some (set_attr ''r'' (Num r)
             (Node (dot_elem (colour (domain_after [] (map name (processedData d))) (fst (d ! j)))
                      (processedData d ! j)) []))"
proof -
  let ?pd = "processedData d"
  let ?D = "domain_after [] (map name ?pd)"
  let ?pts = "chart_points ?D ?pd"
  let ?n = "Node (dot_elem (colour ?D (fst (d ! j))) (?pd ! j)) []"
  have n: "node_at (dot_path j) (hovered_chart d i)
           = node_rel [1] ((?pts[i := hovered (?pd ! i) (?pts ! i)]) ! j)"
    unfolding hovered_chart_alt [OF assms(1)] Let_def chart_tree_alt dot_path_def
    by (subst point_node_at) (simp_all add: assms)
  show ?thesis
  proof (cases "j = i")
    case True
    have "node_at (dot_path j) (hovered_chart d i)
          = Some (set_attr ''r'' (Num (times64 (calculateSize (strength (?pd ! i))) (binary64 1.2))) ?n)"
      unfolding n using assms True
      by (simp add: nth_chart_points hovered_def node_modify_def modify_at_def point_group_alt
            node_at_def nth_processedData)
    then show ?thesis by blast
  next
    case False
    have "node_at (dot_path j) (hovered_chart d i) = Some ?n"
      unfolding n using assms False
      by (simp add: nth_chart_points point_group_alt node_at_def nth_processedData)
    moreover have "set_attr ''r'' (Num (calculateSize (strength (?pd ! j)))) ?n = ?n"
      by (simp add: dot_elem_def dot_circle_def element_def)
    ultimately show ?thesis by metis
  qed
qed

lemma position_at_hovered:
  assumes "i < length d" "j < length d"
  shows "attr_at ''cx'' (dot_path j) (hovered_chart d i)
           = Some (Num (calculatePosition (Strength (snd (d ! j))) xScale))"
    and "attr_at ''cy'' (dot_path j) (hovered_chart d i)
           = Some (Num (calculatePosition (Strength (snd (d ! j))) yScale))"
  using dot_at_hovered [OF assms] assms(2)
  by (auto simp: attr_at_def dot_elem_def dot_circle_def element_def nth_processedData)

lemma line_attrs:
  "node_attr ''x1'' (line_node cx cy st item) = Some (Num cx)"
  "node_attr ''y1'' (line_node cx cy st item) = Some (Num cy)"
  "node_attr ''x2'' (line_node cx cy st item) = Some (Num (calculatePosition (strength item) xScale))"
  "node_attr ''y2'' (line_node cx cy st item) = Some (Num (calculatePosition (strength item) yScale))"
  by (simp_all add: line_node_def connection_line_def element_def)

lemma nth_others:
  assumes "i < length d" "j < length d - 1"
  shows "others d i ! j = processedData d ! (if j < i then j else Suc j)"
  using assms by (simp add: others_def nth_append min_def)

lemma nth_other_dots:
  assumes "i < length d" "j < length d - 1"
  shows "(take i (map dot_path [0..<length d]) @ drop (Suc i) (map dot_path [0..<length d])) ! j
         = dot_path (if j < i then j else Suc j)"
  using assms by (simp add: nth_append min_def)

lemma mouseover_frame:
  "map_option cl_processedData (env (mouseover event p s)) = map_option cl_processedData (env s)"
  by (simp add: mouseover_def on_mouseover_def Let_def split_beta
           split: option.splits node.splits bool.splits)

lemma mouseout_frame: "env (mouseout p s) = env s"
  by (simp add: mouseout_def on_mouseout_def Let_def split: option.splits node.splits)

lemma processedData_inverse: "map (\<lambda>e. (name e, details e)) (processedData d) = d"
  by (intro nth_equalityI) (simp_all add: nth_processedData)

subsection \<open>The two scales\<close>

text \<open>
  What the scales do to values inside and outside the domain \<open>[-10, 10]\<close>. Rounding keeps
  the order, so a value beyond an end of the domain is mapped onto the end of the range or
  beyond it, and the scales are monotone.
\<close>

lemma binary64_le: "binary64 x \<le> c" if "x \<le> c" "binary64 c = c"
  using binary64_mono [OF that(1)] that(2) by simp

lemma binary64_ge: "c \<le> binary64 x" if "c \<le> x" "binary64 c = c"
  using binary64_mono [OF that(1)] that(2) by simp

lemma exact:
  "binary64 1 = 1" "binary64 20 = 20" "binary64 680 = 680" "binary64 580 = 580"
  by code_simp+

lemma apply_xScale:
  "apply_scale xScale x = binary64 (binary64 (680 * binary64 (binary64 (x + 10) / 20)))"
  by (simp add: apply_scale_def xScale_def interpolateNumber_def normalize_d3_def plus64_def
        minus64_def times64_def divide64_def exact binary64_0 Let_def)

lemma apply_yScale:
  "apply_scale yScale x
   = binary64 (binary64 (580 * binary64 (1 - binary64 (binary64 (x + 10) / 20))))"
  by (simp add: apply_scale_def yScale_def interpolateNumber_def normalize_d3_def plus64_def
        minus64_def times64_def divide64_def exact binary64_0 Let_def)


lemma binary64_nonneg: "0 \<le> binary64 x" if "0 \<le> x"
  using binary64_neg_iff [of x] that by linarith

lemma binary64_nonpos: "binary64 x \<le> 0" if "x \<le> 0"
  using binary64_pos_iff [of x] that by linarith

lemma normalized:
  fixes x :: real
  defines "t \<equiv> binary64 (binary64 (x + 10) / 20)"
  shows "- 10 \<le> x \<Longrightarrow> 0 \<le> t" and "x \<le> 10 \<Longrightarrow> t \<le> 1" and "x < - 10 \<Longrightarrow> t < 0"
    and "10 \<le> x \<Longrightarrow> 1 \<le> t"
proof -
  show "0 \<le> t" if "- 10 \<le> x"
    using that by (simp add: t_def binary64_nonneg)
  show "t \<le> 1" if "x \<le> 10"
  proof -
    have "x + 10 \<le> 20" using that by simp
    then have "binary64 (x + 10) \<le> 20" by (rule binary64_le) (simp add: exact)
    then have "binary64 (x + 10) / 20 \<le> 1" by simp
    then show ?thesis unfolding t_def by (rule binary64_le) (simp add: exact)
  qed
  show "t < 0" if "x < - 10"
    using that by (simp add: t_def binary64_neg_iff)
  show "1 \<le> t" if "10 \<le> x"
  proof -
    have "20 \<le> x + 10" using that by simp
    then have "20 \<le> binary64 (x + 10)" by (rule binary64_ge) (simp add: exact)
    then have "1 \<le> binary64 (x + 10) / 20" by simp
    then show ?thesis unfolding t_def by (rule binary64_ge) (simp add: exact)
  qed
qed

lemma xScale_inside:
  assumes "- 10 \<le> x" and "x \<le> 10"
  shows "0 \<le> apply_scale xScale x" and "apply_scale xScale x \<le> width"
proof -
  let ?t = "binary64 (binary64 (x + 10) / 20)"
  note t = normalized(1) [OF assms(1)] normalized(2) [OF assms(2)]
  show "0 \<le> apply_scale xScale x"
    unfolding apply_xScale using t(1) by (simp add: binary64_nonneg)
  have "680 * ?t \<le> 680" using t(2) by simp
  then have "binary64 (680 * ?t) \<le> 680" by (rule binary64_le) (simp add: exact)
  then show "apply_scale xScale x \<le> width"
    unfolding apply_xScale dims by (rule binary64_le) (simp add: exact)
qed

lemma yScale_inside:
  assumes "- 10 \<le> x" and "x \<le> 10"
  shows "0 \<le> apply_scale yScale x" and "apply_scale yScale x \<le> height"
proof -
  let ?t = "binary64 (binary64 (x + 10) / 20)"
  note t = normalized(1) [OF assms(1)] normalized(2) [OF assms(2)]
  show "0 \<le> apply_scale yScale x"
    unfolding apply_yScale using t(2) by (simp add: binary64_nonneg)
  have "1 - ?t \<le> 1" using t(1) by simp
  then have "binary64 (1 - ?t) \<le> 1" by (rule binary64_le) (simp add: exact)
  then have "580 * binary64 (1 - ?t) \<le> 580" by simp
  then have "binary64 (580 * binary64 (1 - ?t)) \<le> 580" by (rule binary64_le) (simp add: exact)
  then show "apply_scale yScale x \<le> height"
    unfolding apply_yScale dims by (rule binary64_le) (simp add: exact)
qed

lemma scale_below:
  assumes "x < - 10"
  shows "apply_scale xScale x < 0" and "height \<le> apply_scale yScale x"
proof -
  let ?t = "binary64 (binary64 (x + 10) / 20)"
  note t = normalized(3) [OF assms]
  show "apply_scale xScale x < 0"
    unfolding apply_xScale using t by (simp add: binary64_neg_iff)
  have "1 \<le> 1 - ?t" using t by simp
  then have "1 \<le> binary64 (1 - ?t)" by (rule binary64_ge) (simp add: exact)
  then have "580 \<le> 580 * binary64 (1 - ?t)" by simp
  then have "580 \<le> binary64 (580 * binary64 (1 - ?t))" by (rule binary64_ge) (simp add: exact)
  then show "height \<le> apply_scale yScale x"
    unfolding apply_yScale dims by (rule binary64_ge) (simp add: exact)
qed

lemma scale_above:
  assumes "10 < x"
  shows "width \<le> apply_scale xScale x" and "apply_scale yScale x \<le> 0"
proof -
  let ?t = "binary64 (binary64 (x + 10) / 20)"
  have "10 \<le> x" using assms by simp
  note t = normalized(4) [OF this]
  have "680 \<le> 680 * ?t" using t by simp
  then have "680 \<le> binary64 (680 * ?t)" by (rule binary64_ge) (simp add: exact)
  then show "width \<le> apply_scale xScale x"
    unfolding apply_xScale dims by (rule binary64_ge) (simp add: exact)
  have "1 - ?t \<le> 0" using t by simp
  then have "binary64 (1 - ?t) \<le> 0" by (rule binary64_nonpos)
  then have "580 * binary64 (1 - ?t) \<le> 0" by (simp add: mult_le_0_iff)
  then have "binary64 (580 * binary64 (1 - ?t)) \<le> 0" by (rule binary64_nonpos)
  then show "apply_scale yScale x \<le> 0"
    unfolding apply_yScale by (rule binary64_nonpos)
qed

lemma scale_mono:
  assumes "x \<le> y"
  shows "apply_scale xScale x \<le> apply_scale xScale y"
    and "apply_scale yScale y \<le> apply_scale yScale x"
proof -
  let ?t = "\<lambda>x. binary64 (binary64 (x + 10) / 20)"
  have "x + 10 \<le> y + 10" using assms by simp
  then have "binary64 (x + 10) \<le> binary64 (y + 10)" by (rule binary64_mono)
  then have "binary64 (x + 10) / 20 \<le> binary64 (y + 10) / 20" by simp
  then have t: "?t x \<le> ?t y" by (rule binary64_mono)
  then have "680 * ?t x \<le> 680 * ?t y" by simp
  then have "binary64 (680 * ?t x) \<le> binary64 (680 * ?t y)" by (rule binary64_mono)
  then show "apply_scale xScale x \<le> apply_scale xScale y"
    unfolding apply_xScale by (rule binary64_mono)
  have "1 - ?t y \<le> 1 - ?t x" using t by simp
  then have "binary64 (1 - ?t y) \<le> binary64 (1 - ?t x)" by (rule binary64_mono)
  then have "580 * binary64 (1 - ?t y) \<le> 580 * binary64 (1 - ?t x)" by simp
  then have "binary64 (580 * binary64 (1 - ?t y)) \<le> binary64 (580 * binary64 (1 - ?t x))"
    by (rule binary64_mono)
  then show "apply_scale yScale y \<le> apply_scale yScale x"
    unfolding apply_yScale by (rule binary64_mono)
qed

lemma beyond:
  "apply_scale xScale (10 + 1 / 2 ^ 48) = 680 + 1 / 2 ^ 43"
  "apply_scale yScale (10 + 1 / 2 ^ 48) = - (145 / 2 ^ 50)"
  "apply_scale yScale (- 10 - 1 / 2 ^ 48) = 580 + 1 / 2 ^ 43"
  by code_simp+

lemma scale_far_above:
  assumes "10 + 1 / 2 ^ 48 \<le> x"
  shows "width < apply_scale xScale x" and "apply_scale yScale x < 0"
proof -
  have "680 + 1 / 2 ^ 43 \<le> apply_scale xScale x"
    using scale_mono(1) [OF assms] unfolding beyond .
  then show "width < apply_scale xScale x" by simp
  have "apply_scale yScale x \<le> - (145 / 2 ^ 50)"
    using scale_mono(2) [OF assms] unfolding beyond .
  then show "apply_scale yScale x < 0" by simp
qed

lemma scale_far_below:
  assumes "x \<le> - 10 - 1 / 2 ^ 48"
  shows "height < apply_scale yScale x"
proof -
  have "580 + 1 / 2 ^ 43 \<le> apply_scale yScale x"
    using scale_mono(2) [OF assms] unfolding beyond .
  then show ?thesis by simp
qed

subsection \<open>The drawn dot and its numbers\<close>

lemma dot_drawn:
  assumes "chartRef s = Some cur" and "i < length d"
  shows "attr_at ''r'' (select_all [] ''dot'' (chart_of (useEffect (Some d) s)) ! i)
           (chart_of (useEffect (Some d) s))
         = Some (Num (calculateSize (Strength (snd (d ! i)))))"
    and "attr_at ''cx'' (select_all [] ''dot'' (chart_of (useEffect (Some d) s)) ! i)
           (chart_of (useEffect (Some d) s))
         = Some (Num (calculatePosition (Strength (snd (d ! i))) xScale))"
    and "attr_at ''cy'' (select_all [] ''dot'' (chart_of (useEffect (Some d) s)) ! i)
           (chart_of (useEffect (Some d) s))
         = Some (Num (calculatePosition (Strength (snd (d ! i))) yScale))"
  using assms(2)
  by (simp_all add: chart_of_useEffect [OF assms(1)] rendered_dots attr_at_def cx_rendered
        dot_elem_def dot_circle_def element_def nth_processedData)

lemma centre: "apply_scale xScale 0 = 340" "apply_scale yScale 0 = 290"
  by code_simp+

lemma sizes:
  "times64 7 (binary64 (7 / 5)) = 5516909543528857 / 562949953421312"
  "times64 7 (binary64 (9 / 5)) = 7093169413108531 / 562949953421312"
  "binary64 (49 / 5) = 5516909543528858 / 562949953421312"
  "binary64 (63 / 5) = 7093169413108531 / 562949953421312"
  "times64 7 (binary64 (6 / 5)) = binary64 (42 / 5)"
  by code_simp+

lemma far_positions:
  "calculatePosition 16 xScale = 612"
  "calculatePosition 16 yScale = 4081387162304511 / 70368744177664"
  "calculatePosition (- 12) xScale = - 68"
  "calculatePosition (- 12) yScale = 638"
  "calculatePosition 24 xScale = 6579477580611585 / 8796093022208"
  "calculatePosition 24 yScale = - (8162774324609031 / 140737488355328)"
  by code_simp+

lemma middle_position:
  "calculatePosition 5 xScale = 425" "calculatePosition 5 yScale = 435 / 2"
  by code_simp+

lemma corner_position:
  "calculatePosition (5629499534213121 / 281474976710656) xScale = 680"
  "calculatePosition (5629499534213121 / 281474976710656) yScale = 0"
  by code_simp+

section \<open>Properties\<close>

subsection \<open>Position\<close>

text \<open>
  C1. After the effect has run on a mapping, the circles of every entry (the dot and its
  glow) have their centre at \<open>calculatePosition\<close> of the entry's strength \<open>v\<close>, on the x
  axis with \<open>xScale\<close> and on the y axis with \<open>yScale\<close>: the scale applied to 0, the centre
  of the plot, when \<open>v = 10\<close>; to \<open>v / 2\<close> when \<open>5 \<le> v < 10\<close>; to \<open>v\<close> when \<open>v < 5\<close>.
\<close>

theorem rendered_position:
  assumes "chartRef s = Some cur" and "i < length d"
  shows "(let t = chart_of (useEffect (Some d) s);
              dot = select_all [] ''dot'' t ! i;
              glow = select_all [] ''dot-glow'' t ! i;
              v = Strength (snd (d ! i))
          in length (select_all [] ''dot'' t) = length d
           \<and> length (select_all [] ''dot-glow'' t) = length d
           \<and> attr_at ''cx'' dot t = Some (Num (calculatePosition v xScale))
           \<and> attr_at ''cy'' dot t = Some (Num (calculatePosition v yScale))
           \<and> attr_at ''cx'' glow t = Some (Num (calculatePosition v xScale))
           \<and> attr_at ''cy'' glow t = Some (Num (calculatePosition v yScale))
           \<and> (v = 10 \<longrightarrow> calculatePosition v xScale = apply_scale xScale 0
                        \<and> calculatePosition v yScale = apply_scale yScale 0
                        \<and> calculatePosition v xScale = width / 2
                        \<and> calculatePosition v yScale = height / 2)
           \<and> (5 \<le> v \<and> v < 10 \<longrightarrow> calculatePosition v xScale = apply_scale xScale (v / 2)
                                \<and> calculatePosition v yScale = apply_scale yScale (v / 2))
           \<and> (v < 5 \<longrightarrow> calculatePosition v xScale = apply_scale xScale v
                       \<and> calculatePosition v yScale = apply_scale yScale v))"
proof -
  let ?pd = "processedData d"
  have i: "i < length ?pd" using assms(2) by simp
  have g: "node_at (glow_path i) (rendered_chart d)
           = Some (Node ((glow_circle (?pd ! i))\<lparr>datum := Some (?pd ! i)\<rparr>) [])"
    unfolding rendered_chart_def by (rule rendered_glow [OF i])
  show ?thesis
    using assms(2)
    by (simp add: chart_of_useEffect [OF assms(1)] rendered_dots rendered_glows Let_def
          attr_at_def cx_rendered g dot_elem_def dot_circle_def glow_circle_def element_def
          nth_processedData calculatePosition_def centre)
qed

theorem rendered_position_witness:
  "(let t = chart_of (useEffect (Some example_data) example_state);
        u = chart_of (useEffect (Some middle_data) example_state)
    in attr_at ''cx'' (select_all [] ''dot'' t ! 0) t = Some (Num (apply_scale xScale 3))
     \<and> attr_at ''cy'' (select_all [] ''dot'' t ! 0) t = Some (Num (apply_scale yScale 3))
     \<and> attr_at ''cx'' (select_all [] ''dot'' t ! 1) t = Some (Num 340)
     \<and> attr_at ''cy'' (select_all [] ''dot'' t ! 1) t = Some (Num 290)
     \<and> attr_at ''cx'' (select_all [] ''dot'' u ! 0) u = Some (Num 425)
     \<and> attr_at ''cy'' (select_all [] ''dot'' u ! 0) u = Some (Num 217.5))"
  using rendered_position [of example_state "[]" 0 example_data]
    rendered_position [of example_state "[]" 1 example_data]
    rendered_position [of example_state "[]" 0 middle_data]
  by (simp add: example_state_def example_data_def middle_data_def Let_def middle_position)

subsection \<open>Point size\<close>

text \<open>
  C2, as the code has it. The radius of the dot of every entry is \<open>calculateSize\<close> of its
  strength: the base size 7 below 5; from 5 up to (not including) 10 the product \<open>7 * 1.4\<close>
  of binary64, which is \<open>5516909543528857 / 2 ^ 49\<close>, printed \<open>9.799999999999999\<close>: one
  unit in the last place below the binary64 number \<open>9.8\<close>, and below the real 9.8; at 10
  the product \<open>7 * 1.8\<close> of binary64, which is the binary64 number \<open>12.6\<close>. The three sizes
  increase strictly.
\<close>

theorem rendered_size:
  assumes "chartRef s = Some cur" and "i < length d"
  shows "(let t = chart_of (useEffect (Some d) s);
              dot = select_all [] ''dot'' t ! i;
              v = Strength (snd (d ! i))
          in attr_at ''r'' dot t = Some (Num (calculateSize v))
           \<and> (v < 5 \<longrightarrow> calculateSize v = 7)
           \<and> (5 \<le> v \<and> v < 10 \<longrightarrow>
                  calculateSize v = times64 7 (binary64 1.4)
                  \<and> calculateSize v = 5516909543528857 / 2 ^ 49
                  \<and> calculateSize v = binary64 9.8 - 1 / 2 ^ 49
                  \<and> calculateSize v < 9.8)
           \<and> (v = 10 \<longrightarrow> calculateSize v = times64 7 (binary64 1.8)
                        \<and> calculateSize v = binary64 12.6)
           \<and> 7 < times64 7 (binary64 1.4)
           \<and> times64 7 (binary64 1.4) < times64 7 (binary64 1.8))"
proof -
  have "attr_at ''r'' (select_all [] ''dot'' (chart_of (useEffect (Some d) s)) ! i)
          (chart_of (useEffect (Some d) s))
        = Some (Num (calculateSize (Strength (snd (d ! i)))))"
    by (rule dot_drawn(1) [OF assms])
  then show ?thesis
    by (simp add: Let_def calculateSize_def sizes)
qed

text \<open>
  The claim as the specification words it, with the size \<open>9.8\<close> in the middle tier, fails
  for the strength 5: the radius drawn is neither the real 9.8 nor the binary64 number
  \<open>9.8\<close>.
\<close>

theorem size_of_strength_5:
  "attr_at ''r'' (select_all [] ''dot'' (chart_of (useEffect (Some middle_data) example_state)) ! 0)
     (chart_of (useEffect (Some middle_data) example_state))
   = Some (Num (5516909543528857 / 2 ^ 49))
   \<and> attr_at ''r'' (select_all [] ''dot'' (chart_of (useEffect (Some middle_data) example_state)) ! 0)
       (chart_of (useEffect (Some middle_data) example_state))
     \<noteq> Some (Num 9.8)
   \<and> attr_at ''r'' (select_all [] ''dot'' (chart_of (useEffect (Some middle_data) example_state)) ! 0)
       (chart_of (useEffect (Some middle_data) example_state))
     \<noteq> Some (Num (binary64 9.8))
   \<and> calculateSize 5 \<noteq> 7 * 1.4"
proof -
  have c: "chartRef example_state = Some []" by (simp add: example_state_def)
  have i: "0 < length middle_data" by (simp add: middle_data_def)
  have v: "calculateSize (Strength (snd (middle_data ! 0))) = 5516909543528857 / 2 ^ 49"
    by (simp add: middle_data_def calculateSize_def sizes)
  have w: "calculateSize 5 = 5516909543528857 / 2 ^ 49"
    by (simp add: calculateSize_def sizes)
  show ?thesis
    unfolding dot_drawn(1) [OF c i] v w by (simp add: sizes)
qed

theorem rendered_size_witness:
  "(let t = chart_of (useEffect (Some example_data) example_state);
        u = chart_of (useEffect (Some middle_data) example_state)
    in attr_at ''r'' (select_all [] ''dot'' t ! 0) t = Some (Num 7)
     \<and> attr_at ''r'' (select_all [] ''dot'' t ! 1) t = Some (Num (binary64 12.6))
     \<and> attr_at ''r'' (select_all [] ''dot'' u ! 0) u = Some (Num (5516909543528857 / 2 ^ 49)))"
  using rendered_size [of example_state "[]" 0 example_data]
    rendered_size [of example_state "[]" 1 example_data]
    rendered_size [of example_state "[]" 0 middle_data]
  by (simp add: example_state_def example_data_def middle_data_def Let_def)

subsection \<open>Connector lines\<close>

text \<open>
  C3. When the pointer enters the dot of entry \<open>i\<close> of a freshly drawn chart of \<open>N\<close>
  entries, the chart holds exactly \<open>N - 1\<close> connector lines; each starts at the centre of
  the hovered dot, and their end points are the centres of the other dots, one line per
  other entry. Before the hover and after the pointer has left, it holds none.
\<close>

theorem hover_connectors:
  assumes "chartRef s = Some cur" and "i < length d"
  shows "(let s1 = useEffect (Some d) s;
              dots = select_all [] ''dot'' (chart_of s1);
              a = dots ! i;
              s2 = mouseover event a s1;
              t2 = chart_of s2;
              lines = select_all [] ''connection-line'' t2;
              s3 = mouseout a s2
          in length lines = length d - 1
           \<and> (\<forall>l \<in> set lines. attr_at ''x1'' l t2 = attr_at ''cx'' a t2
                               \<and> attr_at ''y1'' l t2 = attr_at ''cy'' a t2)
           \<and> attr_at ''cx'' a t2 = Some (Num (calculatePosition (Strength (snd (d ! i))) xScale))
           \<and> attr_at ''cy'' a t2 = Some (Num (calculatePosition (Strength (snd (d ! i))) yScale))
           \<and> map (\<lambda>l. (attr_at ''x2'' l t2, attr_at ''y2'' l t2)) lines
               = map (\<lambda>p. (attr_at ''cx'' p t2, attr_at ''cy'' p t2))
                   (take i dots @ drop (Suc i) dots)
           \<and> select_all [] ''connection-line'' (chart_of s1) = []
           \<and> select_all [] ''connection-line'' (chart_of s3) = [])"
proof -
  let ?s1 = "useEffect (Some d) s"
  let ?a = "dot_path i"
  let ?s2 = "mouseover event ?a ?s1"
  let ?t2 = "hovered_chart d i"
  let ?lines = "map (\<lambda>j. lg_path @ [j]) [0..<length d - 1]"
  let ?dots = "map dot_path [0..<length d]"
  have t1: "chart_of ?s1 = rendered_chart d"
    by (rule chart_of_useEffect [OF assms(1)])
  have t2: "chart_of ?s2 = ?t2"
    by (simp add: mouseover_rendered [OF assms(2,1)] chart_of_def)
  have t3: "chart_of (mouseout ?a ?s2) = rendered_chart d"
    by (simp add: mouseout_hovered [OF assms(2,1)] chart_of_def)
  have a: "?dots ! i = ?a" using assms(2) by simp
  have x1: "attr_at ''x1'' (lg_path @ [j]) ?t2 = attr_at ''cx'' ?a ?t2
            \<and> attr_at ''y1'' (lg_path @ [j]) ?t2 = attr_at ''cy'' ?a ?t2" if "j < length d - 1" for j
    using line_at_hovered [OF assms(2) that] position_at_hovered [OF assms(2) assms(2)]
    by (simp add: attr_at_def line_attrs)
  have x2: "(attr_at ''x2'' (?lines ! j) ?t2, attr_at ''y2'' (?lines ! j) ?t2)
            = (attr_at ''cx'' ((take i ?dots @ drop (Suc i) ?dots) ! j) ?t2,
               attr_at ''cy'' ((take i ?dots @ drop (Suc i) ?dots) ! j) ?t2)"
    if j: "j < length d - 1" for j
  proof -
    let ?j = "if j < i then j else Suc j"
    have j': "?j < length d" using j assms(2) by auto
    show ?thesis
      unfolding nth_other_dots [OF assms(2) j]
      using line_at_hovered [OF assms(2) j] position_at_hovered [OF assms(2) j'] j j'
      by (simp add: attr_at_def line_attrs nth_others [OF assms(2) j] nth_processedData)
  qed
  have m: "map (\<lambda>l. (attr_at ''x2'' l ?t2, attr_at ''y2'' l ?t2)) ?lines
           = map (\<lambda>p. (attr_at ''cx'' p ?t2, attr_at ''cy'' p ?t2))
               (take i ?dots @ drop (Suc i) ?dots)"
  proof (rule nth_equalityI)
    show "length (map (\<lambda>l. (attr_at ''x2'' l ?t2, attr_at ''y2'' l ?t2)) ?lines)
          = length (map (\<lambda>p. (attr_at ''cx'' p ?t2, attr_at ''cy'' p ?t2))
               (take i ?dots @ drop (Suc i) ?dots))"
      using assms(2) by simp
  next
    fix j
    assume "j < length (map (\<lambda>l. (attr_at ''x2'' l ?t2, attr_at ''y2'' l ?t2)) ?lines)"
    then have j: "j < length d - 1" by simp
    have jl: "j < length (take i ?dots @ drop (Suc i) ?dots)" using j assms(2) by simp
    show "map (\<lambda>l. (attr_at ''x2'' l ?t2, attr_at ''y2'' l ?t2)) ?lines ! j
          = map (\<lambda>p. (attr_at ''cx'' p ?t2, attr_at ''cy'' p ?t2))
               (take i ?dots @ drop (Suc i) ?dots) ! j"
      unfolding nth_map [OF jl] using x2 [OF j] j by simp
  qed
  show ?thesis
    unfolding Let_def t1 rendered_dots a t2 t3 select_hovered [OF assms(2)]
    using x1 m position_at_hovered [OF assms(2) assms(2)]
    by (simp add: select_rendered)
qed

theorem hover_connectors_witness:
  "(let s1 = useEffect (Some far_data) example_state;
        a = select_all [] ''dot'' (chart_of s1) ! 0;
        s2 = mouseover example_event a s1;
        lines = select_all [] ''connection-line'' (chart_of s2)
    in length lines = 2
     \<and> (\<forall>l \<in> set lines. attr_at ''x1'' l (chart_of s2) = Some (Num 612)
                         \<and> attr_at ''y1'' l (chart_of s2)
                             = Some (Num (4081387162304511 / 2 ^ 46)))
     \<and> select_all [] ''connection-line'' (chart_of (mouseout a s2)) = [])"
proof -
  have c: "chartRef example_state = Some []" by (simp add: example_state_def)
  have i: "0 < length far_data" by (simp add: far_data_def)
  have v: "calculatePosition (Strength (snd (far_data ! 0))) xScale = 612"
    "calculatePosition (Strength (snd (far_data ! 0))) yScale = 4081387162304511 / 2 ^ 46"
    by (simp_all add: far_data_def far_positions)
  have n: "length far_data - 1 = 2" by (simp add: far_data_def)
  note h = hover_connectors [OF c i, of example_event, unfolded Let_def v n]
  let ?s1 = "useEffect (Some far_data) example_state"
  let ?a = "select_all [] ''dot'' (chart_of ?s1) ! 0"
  let ?t2 = "chart_of (mouseover example_event ?a ?s1)"
  note 1 = h [THEN conjunct1]
  note 2 = h [THEN conjunct2, THEN conjunct1]
  note 3 = h [THEN conjunct2, THEN conjunct2, THEN conjunct1]
  note 4 = h [THEN conjunct2, THEN conjunct2, THEN conjunct2, THEN conjunct1]
  note 5 = h [THEN conjunct2, THEN conjunct2, THEN conjunct2, THEN conjunct2, THEN conjunct2,
              THEN conjunct2]
  show ?thesis
    unfolding Let_def using 1 2 [unfolded 3 4] 5 by (intro conjI)
qed

subsection \<open>The guard of the effect\<close>

text \<open>
  C4. With a null mapping, or with a null container ref, a run of the effect leaves the
  state as it is. With a mapping and a container it replaces the children of the container
  by the drawing: one \<open>svg\<close> element with the two grids, the two axes, one dot and one
  legend row per entry, and the two titles. The function is total: no branch of the effect
  raises.
\<close>

theorem effect_guard:
  "useEffect None s = s
   \<and> (chartRef s = None \<longrightarrow> useEffect data s = s)
   \<and> (chartRef s = Some cur \<longrightarrow>
        (let s' = useEffect (Some d) s; t = chart_of s'
         in chartRef s' = Some (fst (draw d cur)) \<and> env s' = Some (snd (draw d cur))
          \<and> page s' = page s
          \<and> map node_tag t = [''svg'']
          \<and> collect axis t = [grid_x, grid_y, xAxis, yAxis]
          \<and> length (select_all [] ''dot'' t) = length d
          \<and> length (select_all [] ''legend-item'' t) = length d
          \<and> collect content t
              = map (\<lambda>kv. Str (fst kv)) d
                @ [Str ''Personal Identity Map'',
                   Str ''Exploring the dimensions of self-identity and personal values'']))"
proof (intro conjI impI)
  show "useEffect None s = s" by (simp add: useEffect_def)
  show "useEffect data s = s" if "chartRef s = None"
    using that by (simp add: useEffect_def split: option.splits)
  show "let s' = useEffect (Some d) s; t = chart_of s'
         in chartRef s' = Some (fst (draw d cur)) \<and> env s' = Some (snd (draw d cur))
          \<and> page s' = page s
          \<and> map node_tag t = [''svg'']
          \<and> collect axis t = [grid_x, grid_y, xAxis, yAxis]
          \<and> length (select_all [] ''dot'' t) = length d
          \<and> length (select_all [] ''legend-item'' t) = length d
          \<and> collect content t
              = map (\<lambda>kv. Str (fst kv)) d
                @ [Str ''Personal Identity Map'',
                   Str ''Exploring the dimensions of self-identity and personal values'']"
    if c: "chartRef s = Some cur"
    by (simp add: Let_def chart_of_useEffect [OF c] tags_rendered collect_axis_rendered
          collect_content_rendered select_rendered)
       (simp add: useEffect_def c split_beta)
qed

theorem effect_guard_witness:
  "useEffect (Some example_data) (example_state\<lparr>chartRef := None\<rparr>)
     = example_state\<lparr>chartRef := None\<rparr>
   \<and> useEffect None example_state = example_state
   \<and> map node_tag (chart_of (useEffect (Some example_data) example_state)) = [''svg'']
   \<and> collect content (chart_of (useEffect (Some example_data) example_state))
       = [Str ''A'', Str ''B'', Str ''Personal Identity Map'',
          Str ''Exploring the dimensions of self-identity and personal values'']"
  using effect_guard [of "example_state\<lparr>chartRef := None\<rparr>" "Some example_data"]
    effect_guard [of example_state _ "[]" example_data]
  by (simp add: example_state_def example_data_def Let_def)

subsection \<open>The empty mapping\<close>

text \<open>
  C5. For the empty mapping the effect still draws the two grids, the two axes and the two
  titles, and it draws no dot, no glow, no point group, no legend row and no connector.
\<close>

theorem empty_mapping:
  assumes "chartRef s = Some cur"
  shows "(let t = chart_of (useEffect (Some []) s)
          in select_all [] ''dot'' t = []
           \<and> select_all [] ''dot-glow'' t = []
           \<and> select_all [] ''point-group'' t = []
           \<and> select_all [] ''legend-item'' t = []
           \<and> select_all [] ''connection-line'' t = []
           \<and> select_all [] ''grid'' t = [[0, 0, 1], [0, 0, 2]]
           \<and> select_all [] ''axis'' t = [[0, 0, 3], [0, 0, 4]]
           \<and> collect axis t = [grid_x, grid_y, xAxis, yAxis]
           \<and> collect content t
               = [Str ''Personal Identity Map'',
                  Str ''Exploring the dimensions of self-identity and personal values''])"
  by (simp add: Let_def chart_of_useEffect [OF assms] select_rendered collect_axis_rendered
        collect_content_rendered)

theorem empty_mapping_witness:
  "select_all [] ''dot'' (chart_of (useEffect (Some []) example_state)) = []
   \<and> select_all [] ''legend-item'' (chart_of (useEffect (Some []) example_state)) = []
   \<and> length (select_all [] ''grid'' (chart_of (useEffect (Some []) example_state))) = 2
   \<and> length (select_all [] ''axis'' (chart_of (useEffect (Some []) example_state))) = 2"
  using empty_mapping [of example_state "[]"]
  by (simp add: example_state_def Let_def)

subsection \<open>Drawing again\<close>

text \<open>
  C6. The first step of the drawing removes every child of the container, so the result
  of a run does not depend on what the container held before: drawing over the chart of
  another mapping, or over any other content, gives the same children and the same closure
  as drawing into the empty container, and running the effect twice with the same value
  gives the state of running it once.
\<close>

theorem rerender:
  "remove_all (\<lambda>n. True) cur = []
   \<and> draw d cur = draw d cur'
   \<and> (chartRef s = Some cur \<longrightarrow>
        useEffect (Some d) (useEffect (Some d') s) = useEffect (Some d) s
        \<and> (\<forall>s'. chartRef s' \<noteq> None \<longrightarrow>
               chartRef (useEffect (Some d) s') = chartRef (useEffect (Some d) s)
               \<and> env (useEffect (Some d) s') = env (useEffect (Some d) s)))
   \<and> useEffect data (useEffect data s) = useEffect data s"
proof (intro conjI impI allI)
  show "remove_all (\<lambda>n. True) cur = []" by (rule remove_all_True)
  show "draw d cur = draw d cur'" by (simp add: draw_closed)
  show "useEffect (Some d) (useEffect (Some d') s) = useEffect (Some d) s"
    if "chartRef s = Some cur"
    using that by (simp add: useEffect_closed)
  show "chartRef (useEffect (Some d) s') = chartRef (useEffect (Some d) s)"
    if "chartRef s = Some cur" "chartRef s' \<noteq> None" for s'
    using that by (auto simp: useEffect_closed)
  show "env (useEffect (Some d) s') = env (useEffect (Some d) s)"
    if "chartRef s = Some cur" "chartRef s' \<noteq> None" for s'
    using that by (auto simp: useEffect_closed)
  show "useEffect data (useEffect data s) = useEffect data s"
  proof (cases data)
    case None
    then show ?thesis by (simp add: useEffect_def)
  next
    case (Some d)
    show ?thesis
    proof (cases "chartRef s")
      case None
      then show ?thesis by (simp add: useEffect_def Some)
    next
      case (Some cur)
      then show ?thesis
        unfolding \<open>data = Some d\<close> by (simp add: useEffect_closed)
    qed
  qed
qed

theorem rerender_witness:
  "useEffect (Some example_data) (useEffect (Some far_data) example_state)
     = useEffect (Some example_data) example_state
   \<and> useEffect (Some example_data) (useEffect (Some example_data) example_state)
     = useEffect (Some example_data) example_state
   \<and> chartRef (useEffect (Some example_data)
                 (example_state\<lparr>chartRef := Some [Node (element ''p'' [] []) []]\<rparr>))
     = chartRef (useEffect (Some example_data) example_state)"
proof -
  let ?s' = "example_state\<lparr>chartRef := Some [Node (element ''p'' [] []) []]\<rparr>"
  have c: "chartRef example_state = Some []" by (simp add: example_state_def)
  have c': "chartRef ?s' \<noteq> None" by simp
  note r = rerender [of "[]" example_data "[]" example_state far_data "Some example_data"]
  from r c have "useEffect (Some example_data) (useEffect (Some far_data) example_state)
     = useEffect (Some example_data) example_state"
    by blast
  moreover from r have "useEffect (Some example_data) (useEffect (Some example_data) example_state)
     = useEffect (Some example_data) example_state"
    by blast
  moreover from r c c' have "chartRef (useEffect (Some example_data) ?s')
     = chartRef (useEffect (Some example_data) example_state)"
    by blast
  ultimately show ?thesis by blast
qed

subsection \<open>Hovering leaves no trace\<close>

text \<open>
  C7. Neither handler changes the processed entries that the closure holds, in any state;
  and the entries still describe the input mapping. On a freshly drawn chart, entering a
  dot sets its radius to 1.2 times its size, the product being the one that the code
  computes; leaving it sets the radius back to
  \<open>calculateSize\<close> of the strength, removes every connector line and every element of class
  \<open>absolute\<close> of the page (the tooltip among them), and leaves the chart and the closure
  exactly as the effect drew them: the state after the hover is the state that the effect
  produces on the cleaned page, so the same holds for every later hover.
\<close>

theorem hover_transient:
  "map_option cl_processedData (env (mouseover event p s0)) = map_option cl_processedData (env s0)
   \<and> map_option cl_processedData (env (mouseout p s0)) = map_option cl_processedData (env s0)
   \<and> (chartRef s = Some cur \<and> i < length d \<longrightarrow>
        (let s1 = useEffect (Some d) s;
             a = select_all [] ''dot'' (chart_of s1) ! i;
             s2 = mouseover event a s1;
             s3 = mouseout a s2;
             v = Strength (snd (d ! i))
         in map_option cl_processedData (env s1) = Some (processedData d)
          \<and> map (\<lambda>e. (name e, details e)) (processedData d) = d
          \<and> env s2 = env s1 \<and> env s3 = env s1
          \<and> attr_at ''r'' a (chart_of s2)
              = Some (Num (times64 (calculateSize v) (binary64 1.2)))
          \<and> attr_at ''r'' a (chart_of s3) = Some (Num (calculateSize v))
          \<and> select_all [] ''connection-line'' (chart_of s3) = []
          \<and> matching (has_class ''absolute'') 0 (page s3) = []
          \<and> chart_of s3 = chart_of s1
          \<and> s3 = useEffect (Some d) (s\<lparr>page := remove_all (has_class ''absolute'') (page s)\<rparr>)))"
proof (intro conjI impI)
  show "map_option cl_processedData (env (mouseover event p s0))
        = map_option cl_processedData (env s0)"
    by (rule mouseover_frame)
  show "map_option cl_processedData (env (mouseout p s0)) = map_option cl_processedData (env s0)"
    by (simp add: mouseout_frame)
next
  assume "chartRef s = Some cur \<and> i < length d"
  then have c: "chartRef s = Some cur" and i: "i < length d" by simp_all
  let ?pd = "processedData d"
  have r: "attr_at ''r'' (dot_path i) (hovered_chart d i)
           = Some (Num (times64 (calculateSize (Strength (snd (d ! i)))) (binary64 1.2)))"
  proof -
    let ?pts = "chart_points (domain_after [] (map name ?pd)) ?pd"
    have "node_at (dot_path i) (hovered_chart d i)
          = node_rel [1] ((?pts[i := hovered (?pd ! i) (?pts ! i)]) ! i)"
      unfolding hovered_chart_alt [OF i] Let_def chart_tree_alt dot_path_def
      by (subst point_node_at) (simp_all add: i)
    then show ?thesis
      using i
      by (simp add: attr_at_def nth_chart_points hovered_def node_modify_def modify_at_def
            point_group_alt node_at_def nth_processedData dot_elem_def dot_circle_def
            element_def)
  qed
  have r': "attr_at ''r'' (dot_path i) (rendered_chart d)
            = Some (Num (calculateSize (Strength (snd (d ! i)))))"
    using i
    by (simp add: attr_at_def cx_rendered dot_elem_def dot_circle_def element_def
          nth_processedData)
  have t1: "chart_of (useEffect (Some d) s) = rendered_chart d"
    by (rule chart_of_useEffect [OF c])
  have a: "map dot_path [0..<length d] ! i = dot_path i" using i by simp
  have s2: "mouseover event (dot_path i) (useEffect (Some d) s)
            = s\<lparr>page := page_hover event (?pd ! i) (page s),
                 chartRef := Some (hovered_chart d i), env := Some (rendered_env d)\<rparr>"
    by (rule mouseover_rendered [OF i c])
  have s3: "mouseout (dot_path i)
              (s\<lparr>page := page_hover event (?pd ! i) (page s),
                 chartRef := Some (hovered_chart d i), env := Some (rendered_env d)\<rparr>)
            = s\<lparr>page := remove_all (has_class ''absolute'') (page s),
                 chartRef := Some (rendered_chart d), env := Some (rendered_env d)\<rparr>"
    using mouseout_hovered [OF i c, of event] unfolding s2 .
  show "let s1 = useEffect (Some d) s;
             a = select_all [] ''dot'' (chart_of s1) ! i;
             s2 = mouseover event a s1;
             s3 = mouseout a s2;
             v = Strength (snd (d ! i))
         in map_option cl_processedData (env s1) = Some (processedData d)
          \<and> map (\<lambda>e. (name e, details e)) (processedData d) = d
          \<and> env s2 = env s1 \<and> env s3 = env s1
          \<and> attr_at ''r'' a (chart_of s2)
              = Some (Num (times64 (calculateSize v) (binary64 1.2)))
          \<and> attr_at ''r'' a (chart_of s3) = Some (Num (calculateSize v))
          \<and> select_all [] ''connection-line'' (chart_of s3) = []
          \<and> matching (has_class ''absolute'') 0 (page s3) = []
          \<and> chart_of s3 = chart_of s1
          \<and> s3 = useEffect (Some d) (s\<lparr>page := remove_all (has_class ''absolute'') (page s)\<rparr>)"
    unfolding Let_def t1 rendered_dots a s2 s3
    using r r' c
    by (simp add: useEffect_closed [OF c] chart_of_def processedData_inverse rendered_env_def
          select_rendered matching_remove_all [OF shallow_has_class]
          useEffect_closed [of "s\<lparr>page := remove_all (has_class ''absolute'') (page s)\<rparr>" cur])
qed

theorem hover_transient_witness:
  "(let s1 = useEffect (Some example_data) example_state;
        a = select_all [] ''dot'' (chart_of s1) ! 0;
        s2 = mouseover example_event a s1;
        s3 = mouseout a s2
    in attr_at ''r'' a (chart_of s2) = Some (Num (binary64 8.4))
     \<and> attr_at ''r'' a (chart_of s3) = Some (Num 7)
     \<and> select_all [] ''connection-line'' (chart_of s3) = []
     \<and> chart_of s3 = chart_of s1 \<and> env s3 = env s1)"
proof -
  have c: "chartRef example_state = Some [] \<and> 0 < length example_data"
    by (simp add: example_state_def example_data_def)
  have v: "calculateSize (Strength (snd (example_data ! 0))) = 7"
    by (simp add: example_data_def calculateSize_def)
  have e: "times64 7 (binary64 1.2) = binary64 8.4" by (simp add: sizes)
  note h = hover_transient [of example_event "[]" example_state example_state "[]" 0 example_data,
             THEN conjunct2, THEN conjunct2, rule_format, OF c, unfolded Let_def v e]
  show ?thesis
    unfolding Let_def using h by (intro conjI) (elim conjE, assumption)+
qed

subsection \<open>Legend colours\<close>

text \<open>
  C8. For every entry, the fill of the \<open>rect\<close> in its legend row equals the fill of its
  dot: both are the colour that the colour scale of this run gives to the entry's name.
\<close>

theorem legend_colour:
  assumes "chartRef s = Some cur" and "i < length d"
  shows "(let s' = useEffect (Some d) s; t = chart_of s';
              dot = select_all [] ''dot'' t ! i;
              swatch = select_all [] ''legend-item'' t ! i @ [0]
          in length (select_all [] ''legend-item'' t) = length d
           \<and> map_option node_tag (node_at swatch t) = Some ''rect''
           \<and> style_at ''fill'' swatch t = style_at ''fill'' dot t
           \<and> (\<exists>dm. map_option cl_colorScale (env s') = Some dm
                  \<and> style_at ''fill'' dot t = Some (Str (fst (colorScale dm (fst (d ! i)))))))"
proof -
  let ?pd = "processedData d"
  have i: "i < length ?pd" using assms(2) by simp
  have sw: "node_at (svg_path @ [6 + length d, i, 0]) (rendered_chart d)
         = Some (set_style ''fill'' (Str (colour (domain_after [] (map name ?pd)) (fst (d ! i))))
                   (Node ((legend_rect (?pd ! i))\<lparr>datum := Some (?pd ! i)\<rparr>) []))"
    using legend_node_at [OF i] assms(2) by (simp add: rendered_chart_def nth_processedData)
  show ?thesis
    using assms(2)
    by (simp add: useEffect_closed [OF assms(1)] chart_of_def select_rendered Let_def
          style_at_def cx_rendered sw [unfolded svg_path_def, simplified]
          cx_rendered [unfolded dot_path_def svg_path_def, simplified]
          dot_elem_def legend_rect_def element_def rendered_env_def colour_def)
qed

theorem legend_colour_witness:
  "(let t = chart_of (useEffect (Some example_data) example_state)
    in style_at ''fill'' (select_all [] ''legend-item'' t ! 1 @ [0]) t
         = style_at ''fill'' (select_all [] ''dot'' t ! 1) t)"
  using legend_colour [of example_state "[]" 1 example_data]
  by (simp add: example_state_def example_data_def Let_def)

subsection \<open>What leaving a dot removes\<close>

text \<open>
  C9. In every state in which the handler runs, leaving a dot removes every element of
  class \<open>absolute\<close> from the page. So after the pointer has entered and left a dot of a
  drawn chart, the page is the page from before the hover without any of its elements of
  class \<open>absolute\<close>: the tooltip is gone, and so is every other element that carried the
  class, with everything inside it.
\<close>

theorem leave_removes_absolute:
  "(chartRef s0 = Some t \<and> env s0 = Some cl \<and> node_at p t = Some (Node e ks) \<and> listens e \<longrightarrow>
      page (mouseout p s0) = remove_all (has_class ''absolute'') (page s0)
      \<and> matching (has_class ''absolute'') 0 (page (mouseout p s0)) = [])
   \<and> (chartRef s = Some cur \<and> i < length d \<longrightarrow>
        (let s1 = useEffect (Some d) s;
             a = select_all [] ''dot'' (chart_of s1) ! i;
             s3 = mouseout a (mouseover event a s1)
         in page s3 = remove_all (has_class ''absolute'') (page s)
          \<and> matching (has_class ''absolute'') 0 (page s3) = []))"
proof (intro conjI impI)
  assume "chartRef s0 = Some t \<and> env s0 = Some cl \<and> node_at p t = Some (Node e ks) \<and> listens e"
  then have "page (mouseout p s0) = remove_all (has_class ''absolute'') (page s0)"
    by (simp add: mouseout_def on_mouseout_def Let_def)
  then show "page (mouseout p s0) = remove_all (has_class ''absolute'') (page s0)"
    and "matching (has_class ''absolute'') 0 (page (mouseout p s0)) = []"
    by (simp_all add: matching_remove_all [OF shallow_has_class])
next
  assume "chartRef s = Some cur \<and> i < length d"
  then have c: "chartRef s = Some cur" and i: "i < length d" by simp_all
  have t1: "chart_of (useEffect (Some d) s) = rendered_chart d"
    by (rule chart_of_useEffect [OF c])
  have a: "map dot_path [0..<length d] ! i = dot_path i" using i by simp
  show "let s1 = useEffect (Some d) s;
             a = select_all [] ''dot'' (chart_of s1) ! i;
             s3 = mouseout a (mouseover event a s1)
         in page s3 = remove_all (has_class ''absolute'') (page s)
          \<and> matching (has_class ''absolute'') 0 (page s3) = []"
    unfolding Let_def t1 rendered_dots a mouseout_hovered [OF i c]
    by (simp add: matching_remove_all [OF shallow_has_class])
qed

theorem leave_removes_absolute_witness:
  "page (mouseout [0, 0, 6, 1] (useEffect (Some example_data) example_state))
     = [Node (element ''html'' [] [])
          [Node (element ''head'' [] []) [],
           Node (element ''body'' [] [])
             [Node (element ''div''
                      [(''class'', Str ''w-full bg-white rounded-lg shadow-lg p-6'')] [])
                [Container]]]]
   \<and> (let s1 = useEffect (Some example_data) example_state;
          a = select_all [] ''dot'' (chart_of s1) ! 0
      in page (mouseout a (mouseover example_event a s1))
         = [Node (element ''html'' [] [])
              [Node (element ''head'' [] []) [],
               Node (element ''body'' [] [])
                 [Node (element ''div''
                          [(''class'', Str ''w-full bg-white rounded-lg shadow-lg p-6'')] [])
                    [Container]]]])
   \<and> (let s1 = useEffect (Some example_data) (example_state\<lparr>page := nested_page\<rparr>);
          a = select_all [] ''dot'' (chart_of s1) ! 0
      in page (mouseout a (mouseover example_event a s1))
         = [Node (element ''html'' [] [])
              [Node (element ''body'' [] []) [Node (element ''footer'' [] []) []]]])"
proof -
  let ?s0 = "useEffect (Some example_data) example_state"
  have c: "chartRef example_state = Some [] \<and> 0 < length example_data"
    "chartRef (example_state\<lparr>page := nested_page\<rparr>) = Some [] \<and> 0 < length example_data"
    by (simp_all add: example_state_def example_data_def)
  have p: "remove_all (has_class ''absolute'') (page example_state)
           = [Node (element ''html'' [] [])
            [Node (element ''head'' [] []) [],
             Node (element ''body'' [] [])
               [Node (element ''div''
                        [(''class'', Str ''w-full bg-white rounded-lg shadow-lg p-6'')] [])
                  [Container]]]]"
    by (simp add: example_state_def example_page_def class_eval)
  have q: "remove_all (has_class ''absolute'') (page (example_state\<lparr>page := nested_page\<rparr>))
           = [Node (element ''html'' [] [])
              [Node (element ''body'' [] []) [Node (element ''footer'' [] []) []]]]"
    by (simp add: nested_page_def class_eval)
  have s0: "?s0 = example_state\<lparr>chartRef := Some (rendered_chart example_data),
                                 env := Some (rendered_env example_data)\<rparr>"
    by (rule useEffect_closed) (simp add: example_state_def)
  have n: "node_at (dot_path 0) (rendered_chart example_data)
           = Some (Node (dot_elem (colour (domain_after [] (map name (processedData example_data)))
                                    (fst (example_data ! 0))) (processedData example_data ! 0)) [])"
    by (rule cx_rendered) (simp add: example_data_def)
  have h: "chartRef ?s0 = Some (rendered_chart example_data)
           \<and> env ?s0 = Some (rendered_env example_data)
           \<and> node_at [0, 0, 6, 1] (rendered_chart example_data)
               = Some (Node (dot_elem (colour (domain_after [] (map name (processedData example_data)))
                                    (fst (example_data ! 0))) (processedData example_data ! 0)) [])
           \<and> listens (dot_elem (colour (domain_after [] (map name (processedData example_data)))
                                    (fst (example_data ! 0))) (processedData example_data ! 0))"
    using n by (simp add: s0 dot_path_def svg_path_def dot_elem_def)
  have "page ?s0 = page example_state" by (simp add: s0)
  then have 1: "page (mouseout [0, 0, 6, 1] ?s0)
     = [Node (element ''html'' [] [])
          [Node (element ''head'' [] []) [],
           Node (element ''body'' [] [])
             [Node (element ''div''
                      [(''class'', Str ''w-full bg-white rounded-lg shadow-lg p-6'')] [])
                [Container]]]]"
    using leave_removes_absolute [THEN conjunct1, rule_format, OF h, THEN conjunct1] p
    by simp
  show ?thesis
    using 1
      leave_removes_absolute [THEN conjunct2, rule_format, OF c(1), of example_event,
            unfolded Let_def p]
      leave_removes_absolute [THEN conjunct2, rule_format, OF c(2), of example_event,
            unfolded Let_def q]
    unfolding Let_def by (intro conjI) (elim conjE, assumption)+
qed

subsection \<open>Strengths outside the domain\<close>




end
